theory Spec2Isabelle
  imports Main "HOL-Library.Multiset"
begin

section \<open>The image uploader: validation, preview handles, the ordered sequence\<close>

text \<open>
  A shallow embedding of \<^verbatim>\<open>src/components/image-uploader.tsx\<close>: the helpers
  \<^verbatim>\<open>isAcceptedType\<close>, \<^verbatim>\<open>safeRevokeObjectURL\<close>, the hooks
  \<^verbatim>\<open>useObjectURLs\<close> and \<^verbatim>\<open>useFileValidation\<close>, and the three handlers
  \<^verbatim>\<open>handleFileSelect\<close> (Add), \<^verbatim>\<open>handleDelete\<close> (Remove) and
  \<^verbatim>\<open>handleDragEnd\<close> (Move). Rendering is left out, and so is the cleanup on
  unmount, which none of the properties below concerns. Counts and sizes are integers.
\<close>

subsection \<open>Strings\<close>

text \<open>
  JavaScript strings are modelled as \<^typ>\<open>string\<close>. Case folding and trimming are
  modelled on ASCII: \<^verbatim>\<open>toLowerCase\<close> maps A..Z to a..z and \<^verbatim>\<open>trim\<close> strips
  space, tab, line feed, vertical tab, form feed and carriage return.
\<close>

definition toLowerChar :: "char \<Rightarrow> char" where
  "toLowerChar c =
     (case map_of (zip ''ABCDEFGHIJKLMNOPQRSTUVWXYZ'' ''abcdefghijklmnopqrstuvwxyz'') c of
        Some l \<Rightarrow> l
      | None \<Rightarrow> c)"

definition toLowerCase :: "string \<Rightarrow> string" where
  "toLowerCase s = map toLowerChar s"

definition isSpace :: "char \<Rightarrow> bool" where
  "isSpace c = (c \<in> set [CHR '' '', CHR 0x09, CHR 0x0A, CHR 0x0B, CHR 0x0C, CHR 0x0D])"

definition trim :: "string \<Rightarrow> string" where
  "trim s = rev (dropWhile isSpace (rev (dropWhile isSpace s)))"

definition startsWith :: "string \<Rightarrow> string \<Rightarrow> bool" where
  "startsWith s p = (take (length p) s = p)"

definition endsWith :: "string \<Rightarrow> string \<Rightarrow> bool" where
  "endsWith s p = (length p \<le> length s \<and> drop (length s - length p) s = p)"

text \<open>\<^verbatim>\<open>s.split(sep)\<close> for a one-character separator: never empty, \<^verbatim>\<open>"".split(",")\<close> is \<^verbatim>\<open>[""]\<close>.\<close>

fun split :: "char \<Rightarrow> string \<Rightarrow> string list" where
  "split sep [] = [[]]"
| "split sep (c # cs) =
     (if c = sep then [] # split sep cs
      else (case split sep cs of
              [] \<Rightarrow> [[c]]
            | piece # pieces \<Rightarrow> (c # piece) # pieces))"

subsection \<open>Types\<close>

text \<open>The browser's \<^verbatim>\<open>File\<close>: the three attributes the component reads.\<close>

record File =
  file_name :: string
  file_type :: string
  file_size :: nat

text \<open>\<^verbatim>\<open>interface ImageFile { id; file; preview }\<close>\<close>

record ImageFile =
  img_id :: string
  img_file :: File
  preview :: string

datatype ErrorCode = FILE_TOO_LARGE | INVALID_TYPE | MAX_FILES_EXCEEDED | UNKNOWN

text \<open>\<^verbatim>\<open>interface ErrorPayload { code; message; file? }\<close>\<close>

record ErrorPayload =
  code :: ErrorCode
  message :: string
  err_file :: "File option"

subsection \<open>isAcceptedType\<close>

text \<open>One pattern of the accept list against a file: the body of the \<^verbatim>\<open>some\<close> callback.\<close>

definition matchesPattern :: "File \<Rightarrow> string \<Rightarrow> bool" where
  "matchesPattern file pattern =
     (if pattern = ''*/*'' then True
      else if endsWith pattern ''/*'' then
        startsWith (file_type file) (hd (split CHR ''/'' pattern) @ ''/'')
      else if startsWith pattern ''.'' then
        endsWith (toLowerCase (file_name file)) pattern
      else file_type file = pattern)"

definition isAcceptedType :: "File \<Rightarrow> string option \<Rightarrow> bool" where
  "isAcceptedType file acceptedTypes =
     (case acceptedTypes of
        None \<Rightarrow> True
      | Some accepted \<Rightarrow>
          let trimmed = trim accepted in
          if trimmed = [] then True
          else if trimmed = ''image/*'' then startsWith (file_type file) ''image/''
          else
            let acceptedPatterns = map (\<lambda>s. toLowerCase (trim s)) (split CHR '','' trimmed)
            in list_ex (matchesPattern file) acceptedPatterns)"

subsection \<open>Numbers in messages\<close>

text \<open>What a template literal prints for an integer.\<close>

fun showNat :: "nat \<Rightarrow> string" where
  "showNat n =
     (if n < 10 then [''0123456789'' ! n]
      else showNat (n div 10) @ [''0123456789'' ! (n mod 10)])"

declare showNat.simps [simp del]

definition showInt :: "int \<Rightarrow> string" where
  "showInt i = (if i < 0 then CHR ''-'' # showNat (nat (- i)) else showNat (nat i))"

definition showOptInt :: "int option \<Rightarrow> string" where
  "showOptInt v = (case v of None \<Rightarrow> ''undefined'' | Some i \<Rightarrow> showInt i)"

definition showOptString :: "string option \<Rightarrow> string" where
  "showOptString v = (case v of None \<Rightarrow> ''undefined'' | Some s \<Rightarrow> s)"

definition quoted :: "string \<Rightarrow> string" where
  "quoted s = [CHR 0x22] @ s @ [CHR 0x22]"

subsection \<open>The environment and the state\<close>

text \<open>
  What the browser decides is an oracle of the environment: the URL that the k-th call
  of \<^verbatim>\<open>URL.createObjectURL\<close> returns, the string that the k-th call of
  \<^verbatim>\<open>generateId\<close> returns (\<^verbatim>\<open>crypto.randomUUID\<close> or the timestamp fallback),
  and whether \<^verbatim>\<open>URL.revokeObjectURL\<close> throws on a URL. \<^verbatim>\<open>formatFileSize\<close>
  computes with floating-point logarithms; it only feeds the text of one message and is
  a parameter here.
\<close>

datatype jsError = JsError string

record env =
  formatFileSize :: "int \<Rightarrow> string"
  objectUrl :: "nat \<Rightarrow> string"
  randomId :: "nat \<Rightarrow> string"
  revokeThrows :: "string \<Rightarrow> jsError option"

text \<open>
  Everything the component does to the outside is an event of the trace, in order: the
  two browser calls, \<^verbatim>\<open>console.warn\<close>, and the two callbacks of the props. The
  callbacks are taken to return normally.
\<close>

datatype event =
    CreateObjectURL File string
  | RevokeObjectURL string
  | ConsoleWarn string jsError
  | OnError ErrorPayload
  | OnImagesChange "ImageFile list"

text \<open>
  \<^verbatim>\<open>generatedUrlsRef.current\<close> is the set of URLs the hook created and has not yet
  released; the two counters index the oracles.
\<close>

record state =
  generatedUrls :: "string set"
  urlCalls :: nat
  idCalls :: nat
  trace :: "event list"

datatype 'a outcome = Returns 'a | Throws jsError

definition emit :: "event \<Rightarrow> state \<Rightarrow> state" where
  "emit ev s = s\<lparr>trace := trace s @ [ev]\<rparr>"

subsection \<open>safeRevokeObjectURL, generateId, useObjectURLs\<close>

definition URL_revokeObjectURL :: "env \<Rightarrow> string \<Rightarrow> state \<Rightarrow> unit outcome \<times> state" where
  "URL_revokeObjectURL e url s =
     (case revokeThrows e url of
        None \<Rightarrow> (Returns (), emit (RevokeObjectURL url) s)
      | Some err \<Rightarrow> (Throws err, emit (RevokeObjectURL url) s))"

definition safeRevokeObjectURL ::
  "env \<Rightarrow> string \<Rightarrow> (jsError \<Rightarrow> state \<Rightarrow> state) option \<Rightarrow> state \<Rightarrow> unit outcome \<times> state" where
  "safeRevokeObjectURL e url onError s =
     (case URL_revokeObjectURL e url s of
        (Returns u, s1) \<Rightarrow> (Returns (), s1)
      | (Throws error, s1) \<Rightarrow>
          let s2 = emit (ConsoleWarn ''Failed to revoke object URL:'' error) s1
          in (Returns (), (case onError of None \<Rightarrow> s2 | Some callback \<Rightarrow> callback error s2)))"

definition generateId :: "env \<Rightarrow> state \<Rightarrow> string \<times> state" where
  "generateId e s = (randomId e (idCalls s), s\<lparr>idCalls := Suc (idCalls s)\<rparr>)"

definition createObjectURL :: "env \<Rightarrow> File \<Rightarrow> state \<Rightarrow> string \<times> state" where
  "createObjectURL e file s =
     (let url = objectUrl e (urlCalls s);
          s1 = emit (CreateObjectURL file url) (s\<lparr>urlCalls := Suc (urlCalls s)\<rparr>)
      in (url, s1\<lparr>generatedUrls := insert url (generatedUrls s1)\<rparr>))"

definition revokeObjectURL ::
  "env \<Rightarrow> string \<Rightarrow> (jsError \<Rightarrow> state \<Rightarrow> state) option \<Rightarrow> state \<Rightarrow> unit outcome \<times> state" where
  "revokeObjectURL e url onError s =
     (if url \<in> generatedUrls s then
        (case safeRevokeObjectURL e url onError s of
           (Throws err, s1) \<Rightarrow> (Throws err, s1)
         | (Returns u, s1) \<Rightarrow> (Returns (), s1\<lparr>generatedUrls := generatedUrls s1 - {url}\<rparr>))
      else (Returns (), s))"

subsection \<open>useFileValidation\<close>

record Validation =
  isValid :: bool
  error :: "ErrorPayload option"

text \<open>
  \<^verbatim>\<open>maxFileSize && file.size > maxFileSize\<close>: an undefined or zero bound is falsy
  and skips the comparison. The result is the bound that the file exceeds, if any.
\<close>

definition exceededBound :: "File \<Rightarrow> int option \<Rightarrow> int option" where
  "exceededBound file maxSize =
     (case maxSize of
        None \<Rightarrow> None
      | Some m \<Rightarrow> if m \<noteq> 0 \<and> int (file_size file) > m then Some m else None)"

definition tooLargeError :: "env \<Rightarrow> File \<Rightarrow> int \<Rightarrow> ErrorPayload" where
  "tooLargeError e file m =
     \<lparr>code = FILE_TOO_LARGE,
      message = ''File '' @ quoted (file_name file) @ '' exceeds maximum size of ''
                @ formatFileSize e m @ ''.'',
      err_file = Some file\<rparr>"

definition invalidTypeError :: "File \<Rightarrow> string option \<Rightarrow> ErrorPayload" where
  "invalidTypeError file accepted =
     \<lparr>code = INVALID_TYPE,
      message = ''File '' @ quoted (file_name file)
                @ '' is not an accepted file type. Accepted: '' @ showOptString accepted @ ''.'',
      err_file = Some file\<rparr>"

definition validateFile :: "env \<Rightarrow> File \<Rightarrow> int option \<Rightarrow> string option \<Rightarrow> Validation" where
  "validateFile e file maxSize accepted =
     (case exceededBound file maxSize of
        Some m \<Rightarrow> \<lparr>isValid = False, error = Some (tooLargeError e file m)\<rparr>
      | None \<Rightarrow>
          if \<not> isAcceptedType file accepted then
            \<lparr>isValid = False, error = Some (invalidTypeError file accepted)\<rparr>
          else \<lparr>isValid = True, error = None\<rparr>)"

subsection \<open>The component: props and callbacks\<close>

text \<open>
  The props that the handlers read. An optional prop is an \<open>option\<close>; \<open>disabled\<close>
  is the prop after its default \<^verbatim>\<open>false\<close>; \<open>onError\<close> says whether the optional
  error callback was supplied. \<^verbatim>\<open>onImagesChange\<close> is required, and a call of either
  callback is an event of the trace.
\<close>

record Props =
  images :: "ImageFile list"
  maxFiles :: "int option"
  maxFileSize :: "int option"
  acceptedFileTypes :: "string option"
  disabled :: bool
  onError :: bool

definition DEFAULT_MAX_FILE_SIZE :: int where
  "DEFAULT_MAX_FILE_SIZE = 10 * 1024 * 1024"

text \<open>
  The defaults of the destructured parameters,
  \<^verbatim>\<open>maxFileSize = DEFAULT_MAX_FILE_SIZE\<close> and \<^verbatim>\<open>acceptedFileTypes = "image/*"\<close>:
  they replace an omitted prop only.
\<close>

definition maxFileSizeOrDefault :: "Props \<Rightarrow> int" where
  "maxFileSizeOrDefault p =
     (case maxFileSize p of None \<Rightarrow> DEFAULT_MAX_FILE_SIZE | Some m \<Rightarrow> m)"

definition acceptedFileTypesOrDefault :: "Props \<Rightarrow> string" where
  "acceptedFileTypesOrDefault p =
     (case acceptedFileTypes p of None \<Rightarrow> ''image/*'' | Some a \<Rightarrow> a)"

text \<open>\<^verbatim>\<open>onError?.(err)\<close> and \<^verbatim>\<open>onImagesChange(imgs)\<close>\<close>

definition callOnError :: "Props \<Rightarrow> ErrorPayload \<Rightarrow> state \<Rightarrow> state" where
  "callOnError p err s = (if onError p then emit (OnError err) s else s)"

definition callOnImagesChange :: "ImageFile list \<Rightarrow> state \<Rightarrow> state" where
  "callOnImagesChange imgs s = emit (OnImagesChange imgs) s"

subsection \<open>handleFileSelect (Add)\<close>

text \<open>The \<^verbatim>\<open>files.forEach\<close> loop that fills \<^verbatim>\<open>validFiles\<close> and \<^verbatim>\<open>errors\<close>.\<close>

fun validateFiles ::
  "env \<Rightarrow> int option \<Rightarrow> string option \<Rightarrow> File list \<Rightarrow> File list \<times> ErrorPayload list" where
  "validateFiles e maxSize accepted [] = ([], [])"
| "validateFiles e maxSize accepted (file # files) =
     (let validation = validateFile e file maxSize accepted;
          (validFiles, errors) = validateFiles e maxSize accepted files
      in if isValid validation then (file # validFiles, errors)
         else (case error validation of
                 Some err \<Rightarrow> (validFiles, err # errors)
               | None \<Rightarrow> (validFiles, errors)))"

text \<open>
  \<^verbatim>\<open>maxFiles ? Math.max(0, maxFiles - currentCount) : Infinity\<close>: an undefined or zero
  \<^verbatim>\<open>maxFiles\<close> is falsy and leaves the number of slots unbounded.
\<close>

datatype slots = Finite int | Infinity

definition remainingSlots :: "Props \<Rightarrow> slots" where
  "remainingSlots p =
     (case maxFiles p of
        None \<Rightarrow> Infinity
      | Some m \<Rightarrow> if m \<noteq> 0 then Finite (max 0 (m - int (length (images p)))) else Infinity)"

definition maxFilesExceeded :: "string \<Rightarrow> ErrorPayload" where
  "maxFilesExceeded msg = \<lparr>code = MAX_FILES_EXCEEDED, message = msg, err_file = None\<rparr>"

text \<open>
  The \<^verbatim>\<open>filesToAdd.map\<close> loop: for each file a preview URL, then an id.
\<close>

fun createImages :: "env \<Rightarrow> File list \<Rightarrow> state \<Rightarrow> ImageFile list \<times> state" where
  "createImages e [] s = ([], s)"
| "createImages e (file # files) s =
     (let (url, s1) = createObjectURL e file s;
          (newId, s2) = generateId e s1;
          (rest, s3) = createImages e files s2
      in (\<lparr>img_id = newId, img_file = file, preview = url\<rparr> # rest, s3))"

definition handleFileSelect :: "env \<Rightarrow> Props \<Rightarrow> File list \<Rightarrow> state \<Rightarrow> state" where
  "handleFileSelect e p files s =
     (if files = [] \<or> disabled p then s
      else
        let (validFiles, errors) =
              validateFiles e (Some (maxFileSizeOrDefault p)) (Some (acceptedFileTypesOrDefault p)) files;
            s1 = fold (callOnError p) errors s
        in if validFiles = [] then s1
           else
             (case remainingSlots p of
                Infinity \<Rightarrow>
                  (let (newImages, s3) = createImages e validFiles s1
                   in callOnImagesChange (images p @ newImages) s3)
              | Finite r \<Rightarrow>
                  if r \<le> 0 then
                    callOnError p
                      (maxFilesExceeded
                         (''Maximum of '' @ showOptInt (maxFiles p) @ '' files allowed.'')) s1
                  else
                    let (filesToAdd, s2) =
                          (if int (length validFiles) > r then
                             (take (nat r) validFiles,
                              callOnError p
                                (maxFilesExceeded
                                   (''Only '' @ showInt r @ '' of '' @ showNat (length validFiles)
                                    @ '' files were added due to limit of ''
                                    @ showOptInt (maxFiles p) @ ''.'')) s1)
                           else (validFiles, s1));
                        (newImages, s3) = createImages e filesToAdd s2
                    in callOnImagesChange (images p @ newImages) s3))"

subsection \<open>handleDelete (Remove)\<close>

definition cleanupFailed :: ErrorPayload where
  "cleanupFailed =
     \<lparr>code = UNKNOWN, message = ''Failed to clean up image preview'', err_file = None\<rparr>"

definition handleDelete :: "env \<Rightarrow> Props \<Rightarrow> string \<Rightarrow> state \<Rightarrow> unit outcome \<times> state" where
  "handleDelete e p ident s =
     (let released =
            (case find (\<lambda>img. img_id img = ident) (images p) of
               Some imageToDelete \<Rightarrow>
                 revokeObjectURL e (preview imageToDelete)
                   (Some (\<lambda>error. callOnError p cleanupFailed)) s
             | None \<Rightarrow> (Returns (), s))
      in case released of
           (Throws err, s1) \<Rightarrow> (Throws err, s1)
         | (Returns u, s1) \<Rightarrow>
             (Returns (),
              callOnImagesChange (filter (\<lambda>img. img_id img \<noteq> ident) (images p)) s1))"

subsection \<open>handleDragEnd (Move)\<close>

text \<open>\<^verbatim>\<open>Array.prototype.findIndex\<close>: the first index that satisfies, or -1.\<close>

fun findIndex :: "('a \<Rightarrow> bool) \<Rightarrow> 'a list \<Rightarrow> int" where
  "findIndex P [] = - 1"
| "findIndex P (x # xs) =
     (if P x then 0 else (let i = findIndex P xs in if i < 0 then - 1 else i + 1))"

text \<open>
  Modelled from the spec: \<^verbatim>\<open>arrayMove\<close> of the library \<^verbatim>\<open>@dnd-kit/sortable\<close>,
  which is imported and not part of the sources. The spec's Move "relocates the item to
  a new position, shifting others": the item at \<open>from\<close> is taken out and put back
  at position \<open>to\<close> of the shortened array (the library's two \<^verbatim>\<open>splice\<close> calls on
  a copy). For \<open>from\<close> outside the array the library inserts \<^verbatim>\<open>undefined\<close>, which
  no list of images holds: \<open>None\<close>.
\<close>

definition arrayMove :: "'a list \<Rightarrow> nat \<Rightarrow> nat \<Rightarrow> 'a list option" where
  "arrayMove array from to =
     (if from < length array then
        let newArray = take from array @ drop (Suc from) array
        in Some (take to newArray @ array ! from # drop to newArray)
      else None)"

text \<open>
  \<^verbatim>\<open>DragEndEvent\<close>: \<open>active\<close> is \<^verbatim>\<open>active.id\<close>, \<open>over\<close> is \<^verbatim>\<open>over.id\<close>, or
  \<open>None\<close> when \<^verbatim>\<open>over\<close> is null.
\<close>

record DragEndEvent =
  active :: string
  over :: "string option"

definition handleDragEnd :: "Props \<Rightarrow> DragEndEvent \<Rightarrow> state \<Rightarrow> state" where
  "handleDragEnd p event s =
     (case over event of
        None \<Rightarrow> s
      | Some overId \<Rightarrow>
          if active event = overId then s
          else
            let oldIndex = findIndex (\<lambda>item. img_id item = active event) (images p);
                newIndex = findIndex (\<lambda>item. img_id item = overId) (images p)
            in if oldIndex \<ge> 0 \<and> newIndex \<ge> 0 \<and> oldIndex \<noteq> newIndex then
                 (case arrayMove (images p) (nat oldIndex) (nat newIndex) of
                    Some moved \<Rightarrow> callOnImagesChange moved s
                  | None \<Rightarrow> s)
               else s)"

text \<open>
  The owner of the sequence: \<^verbatim>\<open>src/app/page.tsx\<close> passes \<^verbatim>\<open>setImages\<close> as
  \<^verbatim>\<open>onImagesChange\<close>, so the sequence after some events is the argument of the last
  \<^verbatim>\<open>onImagesChange\<close> among them, and the one before when there is none.
\<close>

fun owner :: "ImageFile list \<Rightarrow> event list \<Rightarrow> ImageFile list" where
  "owner imgs [] = imgs"
| "owner imgs (OnImagesChange new # evs) = owner new evs"
| "owner imgs (ev # evs) = owner imgs evs"

subsection \<open>Vocabulary of the properties\<close>

text \<open>The events that an operation adds to the trace.\<close>

definition newEvents :: "state \<Rightarrow> state \<Rightarrow> event list" where
  "newEvents s s' = drop (length (trace s)) (trace s')"

fun isAcquire :: "event \<Rightarrow> bool" where
  "isAcquire (CreateObjectURL file url) = True"
| "isAcquire ev = False"

fun isRevoke :: "event \<Rightarrow> bool" where
  "isRevoke (RevokeObjectURL url) = True"
| "isRevoke ev = False"

fun isChange :: "event \<Rightarrow> bool" where
  "isChange (OnImagesChange imgs) = True"
| "isChange ev = False"

text \<open>A call of the error callback with the given code, or about the given file.\<close>

fun hasCode :: "ErrorCode \<Rightarrow> event \<Rightarrow> bool" where
  "hasCode c (OnError err) = (code err = c)"
| "hasCode c ev = False"

fun concerns :: "File \<Rightarrow> event \<Rightarrow> bool" where
  "concerns file (OnError err) = (err_file err = Some file)"
| "concerns file ev = False"

text \<open>
  A file that Add accepts: within the size bound and of an accepted type, for the bound
  and the patterns that \<^verbatim>\<open>handleFileSelect\<close> hands to \<^verbatim>\<open>validateFile\<close>.
\<close>

definition accepts :: "Props \<Rightarrow> File \<Rightarrow> bool" where
  "accepts p file =
     (exceededBound file (Some (maxFileSizeOrDefault p)) = None
      \<and> isAcceptedType file (Some (acceptedFileTypesOrDefault p)))"

text \<open>The error of a file that is not accepted.\<close>

definition rejection :: "env \<Rightarrow> Props \<Rightarrow> File \<Rightarrow> ErrorPayload" where
  "rejection e p file =
     (case exceededBound file (Some (maxFileSizeOrDefault p)) of
        Some m \<Rightarrow> tooLargeError e file m
      | None \<Rightarrow> invalidTypeError file (Some (acceptedFileTypesOrDefault p)))"

definition rejected :: "Props \<Rightarrow> File list \<Rightarrow> File list" where
  "rejected p files = filter (\<lambda>file. \<not> accepts p file) files"

text \<open>The calls of the error callback for a list of errors: none without a callback.\<close>

definition reports :: "Props \<Rightarrow> ErrorPayload list \<Rightarrow> event list" where
  "reports p errs = (if onError p then map OnError errs else [])"

text \<open>
  The images made from a list of files in a state: the k-th pairs the k-th file with the
  result of the k-th next call of \<^verbatim>\<open>generateId\<close> and of \<^verbatim>\<open>URL.createObjectURL\<close>;
  and the calls of \<^verbatim>\<open>URL.createObjectURL\<close> that make them.
\<close>

definition freshImages :: "env \<Rightarrow> state \<Rightarrow> File list \<Rightarrow> ImageFile list" where
  "freshImages e s files =
     map (\<lambda>k. \<lparr>img_id = randomId e (idCalls s + k), img_file = files ! k,
               preview = objectUrl e (urlCalls s + k)\<rparr>) [0..<length files]"

definition acquisitions :: "env \<Rightarrow> state \<Rightarrow> File list \<Rightarrow> event list" where
  "acquisitions e s files =
     map (\<lambda>k. CreateObjectURL (files ! k) (objectUrl e (urlCalls s + k))) [0..<length files]"

text \<open>The files that fit under the ceiling, and the message when some do not.\<close>

definition keptFiles :: "Props \<Rightarrow> File list \<Rightarrow> File list" where
  "keptFiles p validFiles =
     (case remainingSlots p of Infinity \<Rightarrow> validFiles | Finite r \<Rightarrow> take (nat r) validFiles)"

definition onlySomeAdded :: "Props \<Rightarrow> int \<Rightarrow> nat \<Rightarrow> ErrorPayload" where
  "onlySomeAdded p r n =
     maxFilesExceeded
       (''Only '' @ showInt r @ '' of '' @ showNat n @ '' files were added due to limit of ''
        @ showOptInt (maxFiles p) @ ''.'')"

definition noneAdded :: "Props \<Rightarrow> ErrorPayload" where
  "noneAdded p =
     maxFilesExceeded (''Maximum of '' @ showOptInt (maxFiles p) @ '' files allowed.'')"

definition truncation :: "Props \<Rightarrow> File list \<Rightarrow> event list" where
  "truncation p validFiles =
     (case remainingSlots p of
        Infinity \<Rightarrow> []
      | Finite r \<Rightarrow>
          if int (length validFiles) > r then reports p [onlySomeAdded p r (length validFiles)]
          else [])"

text \<open>What a failed revocation leaves in the trace of \<^verbatim>\<open>handleDelete\<close>.\<close>

definition revokeFailure :: "env \<Rightarrow> Props \<Rightarrow> string \<Rightarrow> event list" where
  "revokeFailure e p url =
     (case revokeThrows e url of
        None \<Rightarrow> []
      | Some err \<Rightarrow> ConsoleWarn ''Failed to revoke object URL:'' err # reports p [cleanupFailed])"

subsection \<open>Concrete inputs\<close>

text \<open>
  A browser that numbers its URLs and ids and never fails to revoke (its
  \<^verbatim>\<open>formatFileSize\<close> is a stand-in that prints the bytes), one that fails on every
  URL, the state of a freshly mounted component, the props of \<^verbatim>\<open>src/app/page.tsx\<close>
  with an error callback, and a few files.
\<close>

definition browser :: env where
  "browser =
     \<lparr>formatFileSize = (\<lambda>bytes. showInt bytes @ '' Bytes''),
      objectUrl = (\<lambda>k. ''blob:'' @ showNat k),
      randomId = (\<lambda>k. ''id-'' @ showNat k),
      revokeThrows = (\<lambda>url. None)\<rparr>"

definition failingBrowser :: env where
  "failingBrowser = browser\<lparr>revokeThrows := (\<lambda>url. Some (JsError ''revoke''))\<rparr>"

definition mounted :: state where
  "mounted = \<lparr>generatedUrls = {}, urlCalls = 0, idCalls = 0, trace = []\<rparr>"

definition homeProps :: Props where
  "homeProps =
     \<lparr>images = [], maxFiles = Some 10, maxFileSize = None, acceptedFileTypes = None,
      disabled = False, onError = True\<rparr>"

definition png :: "string \<Rightarrow> nat \<Rightarrow> File" where
  "png name bytes = \<lparr>file_name = name, file_type = ''image/png'', file_size = bytes\<rparr>"

definition pdf :: "string \<Rightarrow> nat \<Rightarrow> File" where
  "pdf name bytes = \<lparr>file_name = name, file_type = ''application/pdf'', file_size = bytes\<rparr>"

definition image :: "string \<Rightarrow> string \<Rightarrow> ImageFile" where
  "image ident url = \<lparr>img_id = ident, img_file = png ''a.png'' 100, preview = url\<rparr>"

section \<open>Properties\<close>

subsection \<open>The loops and the branches of handleFileSelect\<close>

lemma split_nonempty: "split sep s \<noteq> []"
  by (induction s) (auto split: list.splits)

lemma isValid_validateFile:
  "isValid (validateFile e file (Some (maxFileSizeOrDefault p)) (Some (acceptedFileTypesOrDefault p)))
     = accepts p file"
  by (simp add: validateFile_def accepts_def split: option.splits)

lemma error_validateFile:
  "error (validateFile e file (Some (maxFileSizeOrDefault p)) (Some (acceptedFileTypesOrDefault p)))
     = (if accepts p file then None else Some (rejection e p file))"
  by (simp add: validateFile_def accepts_def rejection_def split: option.splits)

lemma validateFiles_eq:
  "validateFiles e (Some (maxFileSizeOrDefault p)) (Some (acceptedFileTypesOrDefault p)) files
     = (filter (accepts p) files, map (rejection e p) (rejected p files))"
  by (induction files) (simp_all add: rejected_def isValid_validateFile error_validateFile)

lemma fold_callOnError:
  "fold (callOnError p) errs s = s\<lparr>trace := trace s @ reports p errs\<rparr>"
  by (induction errs arbitrary: s) (simp_all add: callOnError_def reports_def emit_def)

lemma upt_Suc_shift: "[0..<Suc n] = 0 # map Suc [0..<n]"
  by (simp add: upt_conv_Cons map_Suc_upt del: upt_Suc)

lemma freshImages_Cons:
  "freshImages e s (file # files) =
     \<lparr>img_id = randomId e (idCalls s), img_file = file, preview = objectUrl e (urlCalls s)\<rparr>
     # freshImages e (s\<lparr>urlCalls := Suc (urlCalls s), idCalls := Suc (idCalls s)\<rparr>) files"
  unfolding freshImages_def length_Cons upt_Suc_shift by (simp add: comp_def)

lemma acquisitions_Cons:
  "acquisitions e s (file # files) =
     CreateObjectURL file (objectUrl e (urlCalls s))
     # acquisitions e (s\<lparr>urlCalls := Suc (urlCalls s)\<rparr>) files"
  unfolding acquisitions_def length_Cons upt_Suc_shift by (simp add: comp_def)

lemma freshImages_cong:
  "idCalls s = idCalls s' \<Longrightarrow> urlCalls s = urlCalls s' \<Longrightarrow> freshImages e s files = freshImages e s' files"
  by (simp add: freshImages_def)

lemma acquisitions_cong:
  "urlCalls s = urlCalls s' \<Longrightarrow> acquisitions e s files = acquisitions e s' files"
  by (simp add: acquisitions_def)

lemma createImages_eq:
  "createImages e files s =
     (freshImages e s files,
      s\<lparr>generatedUrls := generatedUrls s \<union> set (map preview (freshImages e s files)),
        urlCalls := urlCalls s + length files,
        idCalls := idCalls s + length files,
        trace := trace s @ acquisitions e s files\<rparr>)"
proof (induction files arbitrary: s)
  case Nil
  show ?case by (simp add: freshImages_def acquisitions_def)
next
  case (Cons f fs)
  let ?s2 = "s\<lparr>urlCalls := Suc (urlCalls s), trace := trace s @ [CreateObjectURL f (objectUrl e (urlCalls s))],
     generatedUrls := insert (objectUrl e (urlCalls s)) (generatedUrls s), idCalls := Suc (idCalls s)\<rparr>"
  have fi: "freshImages e ?s2 fs = freshImages e (s\<lparr>urlCalls := Suc (urlCalls s), idCalls := Suc (idCalls s)\<rparr>) fs"
    by (rule freshImages_cong) simp_all
  have ac: "acquisitions e ?s2 fs = acquisitions e (s\<lparr>urlCalls := Suc (urlCalls s)\<rparr>) fs"
    by (rule acquisitions_cong) simp_all
  show ?case
    by (simp add: createObjectURL_def generateId_def emit_def Let_def Cons.IH fi ac
        freshImages_Cons acquisitions_Cons)
qed


lemma hfs_idle: "files = [] \<or> disabled p \<Longrightarrow> handleFileSelect e p files s = s"
  by (auto simp: handleFileSelect_def)

lemma hfs_rejected:
  assumes "\<not> disabled p" "files \<noteq> []" "filter (accepts p) files = []"
  shows "handleFileSelect e p files s
     = s\<lparr>trace := trace s @ reports p (map (rejection e p) (rejected p files))\<rparr>"
  using assms by (simp add: handleFileSelect_def validateFiles_eq fold_callOnError)

lemma hfs_full:
  assumes "\<not> disabled p" "filter (accepts p) files \<noteq> []" "remainingSlots p = Finite r" "r \<le> 0"
  shows "handleFileSelect e p files s
     = s\<lparr>trace := trace s @ reports p (map (rejection e p) (rejected p files))
                 @ reports p [noneAdded p]\<rparr>"
proof -
  from assms(2) have "files \<noteq> []" by auto
  with assms show ?thesis
    by (simp add: handleFileSelect_def validateFiles_eq fold_callOnError callOnError_def
        emit_def reports_def noneAdded_def)
qed

lemma hfs_adds:
  assumes "\<not> disabled p" and valid: "valid = filter (accepts p) files" "valid \<noteq> []"
    and room: "remainingSlots p = Infinity \<or> (\<exists>r. remainingSlots p = Finite r \<and> 0 < r)"
    and kept: "kept = keptFiles p valid"
  shows "handleFileSelect e p files s
     = s\<lparr>generatedUrls := generatedUrls s \<union> set (map preview (freshImages e s kept)),
         urlCalls := urlCalls s + length kept,
         idCalls := idCalls s + length kept,
         trace := trace s @ reports p (map (rejection e p) (rejected p files))
                  @ truncation p valid @ acquisitions e s kept
                  @ [OnImagesChange (images p @ freshImages e s kept)]\<rparr>"
proof -
  from valid have ne: "files \<noteq> []" by auto
  let ?s1 = "s\<lparr>trace := trace s @ reports p (map (rejection e p) (rejected p files))\<rparr>"
  have fi: "\<And>t fs. freshImages e (s\<lparr>trace := t\<rparr>) fs = freshImages e s fs"
    by (rule freshImages_cong) simp_all
  have ac: "\<And>t fs. acquisitions e (s\<lparr>trace := t\<rparr>) fs = acquisitions e s fs"
    by (rule acquisitions_cong) simp_all
  from room show ?thesis
  proof
    assume inf: "remainingSlots p = Infinity"
    with assms ne show ?thesis
      by (simp add: handleFileSelect_def validateFiles_eq fold_callOnError createImages_eq
          callOnImagesChange_def emit_def keptFiles_def truncation_def fi ac)
  next
    assume "\<exists>r. remainingSlots p = Finite r \<and> 0 < r"
    then obtain r where fin: "remainingSlots p = Finite r" "0 < r" by blast
    show ?thesis
    proof (cases "int (length valid) > r")
      case True
      with assms ne fin show ?thesis
        by (simp add: handleFileSelect_def validateFiles_eq fold_callOnError createImages_eq
            callOnImagesChange_def callOnError_def emit_def keptFiles_def truncation_def
            reports_def onlySomeAdded_def fi ac)
    next
      case False
      then have "take (nat r) valid = valid" by simp
      with False assms ne fin show ?thesis
        by (simp add: handleFileSelect_def validateFiles_eq fold_callOnError createImages_eq
            callOnImagesChange_def emit_def keptFiles_def truncation_def fi ac)
    qed
  qed
qed

subsection \<open>Events, the owner, and the run of handleFileSelect\<close>

lemma newEvents_append: "trace s' = trace s @ evs \<Longrightarrow> newEvents s s' = evs"
  by (simp add: newEvents_def)

lemma owner_last_change: "owner imgs (evs @ [OnImagesChange new]) = new"
  by (induction imgs evs rule: owner.induct) simp_all

lemma owner_no_change: "filter isChange evs = [] \<Longrightarrow> owner imgs evs = imgs"
  by (induction imgs evs rule: owner.induct) simp_all

lemma keptFiles_room:
  "remainingSlots p = Infinity \<or> (\<exists>r. remainingSlots p = Finite r \<and> int (length fs) \<le> r)
   \<Longrightarrow> keptFiles p fs = fs"
  by (auto simp: keptFiles_def)

lemma truncation_room:
  "remainingSlots p = Infinity \<or> (\<exists>r. remainingSlots p = Finite r \<and> int (length fs) \<le> r)
   \<Longrightarrow> truncation p fs = []"
  by (auto simp: truncation_def)

lemma handleFileSelect_all_accepted:
  assumes en: "\<not> disabled p"
    and acc: "list_all (accepts p) files"
    and ne: "files \<noteq> []"
    and room: "remainingSlots p = Infinity
               \<or> (\<exists>r. remainingSlots p = Finite r \<and> int (length files) \<le> r)"
  shows "trace (handleFileSelect e p files s)
     = trace s @ acquisitions e s files @ [OnImagesChange (images p @ freshImages e s files)]"
proof -
  from acc have valid: "filter (accepts p) files = files"
    by (simp add: list_all_iff)
  then have rej: "rejected p files = []"
    by (simp add: rejected_def list_all_iff acc[unfolded list_all_iff])
  from room ne have room': "remainingSlots p = Infinity \<or> (\<exists>r. remainingSlots p = Finite r \<and> 0 < r)"
    by (cases files) auto
  show ?thesis
    using hfs_adds[OF en valid[symmetric] ne room' refl, of e s]
    by (simp add: keptFiles_room[OF room] truncation_room[OF room] rej reports_def)
qed

lemma filter_reports:
  "filter P (reports p errs) = reports p (filter (\<lambda>err. P (OnError err)) errs)"
  by (simp add: reports_def filter_map comp_def)

lemma filter_acquisitions_none:
  "(\<And>f u. \<not> P (CreateObjectURL f u)) \<Longrightarrow> filter P (acquisitions e s fs) = []"
  by (simp add: acquisitions_def filter_empty_conv)

lemma err_file_rejection: "err_file (rejection e p f) = Some f"
  by (simp add: rejection_def tooLargeError_def invalidTypeError_def split: option.splits)

lemma count_list_rejected:
  "\<not> accepts p f \<Longrightarrow> count_list (rejected p files) f = count_list files f"
  by (induction files) (auto simp: rejected_def)

lemma set_keptFiles: "set (keptFiles p fs) \<subseteq> set fs"
  by (auto simp: keptFiles_def split: slots.splits dest: in_set_takeD)

text \<open>Every run of Add: the rejections, at most one limit error, the acquisitions of the kept files, the change.\<close>

lemma hfs_shape:
  assumes "\<not> disabled p"
  shows "\<exists>lim kept.
      trace (handleFileSelect e p files s)
        = trace s @ reports p (map (rejection e p) (rejected p files)) @ reports p lim
          @ acquisitions e s kept
          @ (if kept = [] then [] else [OnImagesChange (images p @ freshImages e s kept)])
      \<and> list_all (\<lambda>err. code err = MAX_FILES_EXCEEDED \<and> err_file err = None) lim
      \<and> length lim \<le> 1
      \<and> list_all (accepts p) kept"
proof (cases "filter (accepts p) files = []")
  case True
  show ?thesis
  proof (cases "files = []")
    case True
    then show ?thesis
      by (intro exI[of _ "[]"]) (simp add: hfs_idle rejected_def reports_def acquisitions_def)
  next
    case False
    show ?thesis
      using hfs_rejected[OF assms False True, of e s]
      by (intro exI[of _ "[]"]) (simp add: reports_def acquisitions_def)
  qed
next
  case valid: False
  have acc: "list_all (accepts p) (keptFiles p (filter (accepts p) files))"
    using set_keptFiles[of p "filter (accepts p) files"] by (auto simp: list_all_iff)
  show ?thesis
  proof (cases "remainingSlots p")
    case Infinity
    then have tr: "truncation p (filter (accepts p) files) = []"
      by (simp add: truncation_def)
    have k: "keptFiles p (filter (accepts p) files) = filter (accepts p) files"
      using Infinity by (simp add: keptFiles_def)
    show ?thesis
      using hfs_adds[OF assms refl valid _ refl, of e s] Infinity valid acc
      by (intro exI[of _ "[]"] exI[of _ "filter (accepts p) files"])
         (simp add: tr k reports_def)
  next
    case (Finite r)
    show ?thesis
    proof (cases "r \<le> 0")
      case True
      show ?thesis
        using hfs_full[OF assms valid Finite True, of e s]
        by (intro exI[of _ "[noneAdded p]"] exI[of _ "[]"])
           (simp add: acquisitions_def noneAdded_def maxFilesExceeded_def)
    next
      case False
      then have pos: "0 < r" by simp
      have kne: "keptFiles p (filter (accepts p) files) \<noteq> []"
        using Finite pos valid by (simp add: keptFiles_def)
      let ?lim = "if int (length (filter (accepts p) files)) > r
                  then [onlySomeAdded p r (length (filter (accepts p) files))] else []"
      have tr: "truncation p (filter (accepts p) files) = reports p ?lim"
        using Finite by (simp add: truncation_def reports_def)
      have "trace (handleFileSelect e p files s)
        = trace s @ reports p (map (rejection e p) (rejected p files)) @ reports p ?lim
          @ acquisitions e s (keptFiles p (filter (accepts p) files))
          @ [OnImagesChange (images p @ freshImages e s (keptFiles p (filter (accepts p) files)))]"
        using hfs_adds[OF assms refl valid _ refl, of e s] Finite pos by (simp add: tr)
      then show ?thesis
        using kne acc
        by (intro exI[of _ ?lim] exI[of _ "keptFiles p (filter (accepts p) files)"])
           (simp add: onlySomeAdded_def maxFilesExceeded_def)
    qed
  qed
qed

lemma acquisitions_file: "CreateObjectURL f u \<in> set (acquisitions e s fs) \<Longrightarrow> f \<in> set fs"
  by (auto simp: acquisitions_def)

lemma map_img_file_freshImages: "map img_file (freshImages e s fs) = fs"
  by (simp add: freshImages_def comp_def map_nth)

lemma filter_concerns_rejections:
  "filter (concerns f) (map (OnError \<circ> rejection e p) fs)
     = replicate (count_list fs f) (OnError (rejection e p f))"
  by (induction fs) (simp_all add: err_file_rejection)

lemma filter_concerns_limit:
  "list_all (\<lambda>err. code err = MAX_FILES_EXCEEDED \<and> err_file err = None) lim
   \<Longrightarrow> filter (concerns f) (reports p lim) = []"
  by (auto simp: reports_def filter_empty_conv list_all_iff)

lemma owner_added:
  "owner imgs (evs @ acquisitions e s kept
      @ (if kept = [] then [] else [OnImagesChange (imgs @ freshImages e s kept)]))
     = (if kept = [] then owner imgs evs else imgs @ freshImages e s kept)"
proof (cases "kept = []")
  case True
  then show ?thesis by (simp add: acquisitions_def)
next
  case False
  then show ?thesis
    using owner_last_change[of imgs "evs @ acquisitions e s kept"] by simp
qed

lemma filter_hasCode_rejections:
  "filter (hasCode MAX_FILES_EXCEEDED) (map (OnError \<circ> rejection e p) fs) = []"
  by (simp add: filter_empty_conv rejection_def tooLargeError_def invalidTypeError_def
      split: option.splits)

lemma remainingSlots_ceiling:
  "maxFiles p = Some N \<Longrightarrow> N \<noteq> 0
   \<Longrightarrow> remainingSlots p = Finite (max 0 (N - int (length (images p))))"
  by (simp add: remainingSlots_def)

subsection \<open>Revocation and handleDelete\<close>

lemma safeRevokeObjectURL_returns: "fst (safeRevokeObjectURL e url sink s) = Returns ()"
  by (simp add: safeRevokeObjectURL_def URL_revokeObjectURL_def Let_def split: option.splits)

lemma revokeObjectURL_returns: "fst (revokeObjectURL e url sink s) = Returns ()"
proof (cases "safeRevokeObjectURL e url sink s")
  case (Pair r s1)
  with safeRevokeObjectURL_returns[of e url sink s] have "r = Returns ()" by simp
  with Pair show ?thesis by (simp add: revokeObjectURL_def)
qed

lemma revokeObjectURL_untracked:
  "url \<notin> generatedUrls s \<Longrightarrow> revokeObjectURL e url sink s = (Returns (), s)"
  by (simp add: revokeObjectURL_def)

lemma revokeObjectURL_forgets: "url \<notin> generatedUrls (snd (revokeObjectURL e url sink s))"
proof (cases "safeRevokeObjectURL e url sink s")
  case (Pair r s1)
  with safeRevokeObjectURL_returns[of e url sink s] have "r = Returns ()" by simp
  with Pair show ?thesis by (simp add: revokeObjectURL_def)
qed

lemma find_absent:
  "ident \<notin> img_id ` set imgs \<Longrightarrow> find (\<lambda>img. img_id img = ident) imgs = None"
  by (auto simp: find_None_iff)

lemma filter_absent:
  "ident \<notin> img_id ` set imgs \<Longrightarrow> filter (\<lambda>img. img_id img \<noteq> ident) imgs = imgs"
  by (auto simp: filter_id_conv)

lemma find_unique:
  "img_id x = ident \<Longrightarrow> ident \<notin> img_id ` set xs
   \<Longrightarrow> find (\<lambda>img. img_id img = ident) (xs @ x # ys) = Some x"
  by (induction xs) auto

lemma filter_unique:
  "img_id x = ident \<Longrightarrow> ident \<notin> img_id ` set xs \<Longrightarrow> ident \<notin> img_id ` set ys
   \<Longrightarrow> filter (\<lambda>img. img_id img \<noteq> ident) (xs @ x # ys) = xs @ ys"
  using filter_absent[of ident xs] filter_absent[of ident ys] by simp

lemma revokeObjectURL_component:
  "revokeObjectURL e url (Some (\<lambda>error. callOnError p cleanupFailed)) s
     = (Returns (),
        if url \<in> generatedUrls s then
          s\<lparr>trace := trace s @ RevokeObjectURL url # revokeFailure e p url,
            generatedUrls := generatedUrls s - {url}\<rparr>
        else s)"
  by (simp add: revokeObjectURL_def safeRevokeObjectURL_def URL_revokeObjectURL_def
      revokeFailure_def reports_def callOnError_def emit_def Let_def split: option.splits)

lemma handleDelete_found:
  assumes "find (\<lambda>img. img_id img = ident) (images p) = Some x"
  shows "handleDelete e p ident s
     = (Returns (),
        s\<lparr>trace := trace s
             @ (if preview x \<in> generatedUrls s
                then RevokeObjectURL (preview x) # revokeFailure e p (preview x) else [])
             @ [OnImagesChange (filter (\<lambda>img. img_id img \<noteq> ident) (images p))],
          generatedUrls := generatedUrls s - {preview x}\<rparr>)"
  using assms
  by (simp add: handleDelete_def revokeObjectURL_component callOnImagesChange_def emit_def)

lemma handleDelete_absent:
  assumes "find (\<lambda>img. img_id img = ident) (images p) = None"
  shows "handleDelete e p ident s
     = (Returns (),
        s\<lparr>trace := trace s @ [OnImagesChange (filter (\<lambda>img. img_id img \<noteq> ident) (images p))]\<rparr>)"
  using assms by (simp add: handleDelete_def callOnImagesChange_def emit_def)

lemma filter_isRevoke_failure: "filter isRevoke (revokeFailure e p url) = []"
  by (simp add: revokeFailure_def reports_def split: option.splits)

lemma revokeFailure_images: "revokeFailure e (p\<lparr>images := imgs\<rparr>) url = revokeFailure e p url"
  by (simp add: revokeFailure_def reports_def split: option.splits)

lemma handleFileSelect_single:
  assumes en: "\<not> disabled p" and acc: "accepts p f"
    and room: "remainingSlots p = Infinity \<or> (\<exists>r. remainingSlots p = Finite r \<and> 0 < r)"
  shows "handleFileSelect e p [f] s
     = s\<lparr>generatedUrls := insert (objectUrl e (urlCalls s)) (generatedUrls s),
         urlCalls := Suc (urlCalls s),
         idCalls := Suc (idCalls s),
         trace := trace s
           @ [CreateObjectURL f (objectUrl e (urlCalls s)),
              OnImagesChange
                (images p @ [\<lparr>img_id = randomId e (idCalls s), img_file = f,
                               preview = objectUrl e (urlCalls s)\<rparr>])]\<rparr>"
proof -
  have valid: "[f] = filter (accepts p) [f]"
    using acc by simp
  have kept: "[f] = keptFiles p [f]"
    using room by (auto simp: keptFiles_def)
  have trunc: "truncation p [f] = []"
    using room by (auto simp: truncation_def)
  have rej: "rejected p [f] = []"
    using acc by (simp add: rejected_def)
  show ?thesis
    using hfs_adds[OF en valid _ room kept, of e s]
    by (simp add: trunc rej reports_def freshImages_def acquisitions_def)
qed

subsection \<open>findIndex, arrayMove and handleDragEnd\<close>

lemma findIndex_absent: "(\<And>x. x \<in> set xs \<Longrightarrow> \<not> P x) \<Longrightarrow> findIndex P xs = - 1"
  by (induction xs) (simp_all add: Let_def)

lemma findIndex_present:
  "\<exists>x\<in>set xs. P x
   \<Longrightarrow> 0 \<le> findIndex P xs \<and> nat (findIndex P xs) < length xs \<and> P (xs ! nat (findIndex P xs))"
proof (induction xs)
  case Nil
  then show ?case by simp
next
  case (Cons x xs)
  show ?case
  proof (cases "P x")
    case True
    then show ?thesis by simp
  next
    case False
    with Cons.prems have "\<exists>y\<in>set xs. P y" by simp
    from Cons.IH[OF this] False show ?thesis
      by (simp add: Let_def nat_add_distrib)
  qed
qed

lemma arrayMove_within:
  assumes "i < length a" "j < length a"
  shows "\<exists>moved. arrayMove a i j = Some moved
           \<and> mset moved = mset a
           \<and> moved ! j = a ! i
           \<and> take j moved @ drop (Suc j) moved = take i a @ drop (Suc i) a"
proof -
  let ?rest = "take i a @ drop (Suc i) a"
  let ?moved = "take j ?rest @ a ! i # drop j ?rest"
  have len: "length ?rest = length a - 1"
    using assms by simp
  with assms have lj: "length (take j ?rest) = j"
    by simp
  have "mset ?moved = mset ?rest + {#a ! i#}"
    by (metis add_mset_add_single append_take_drop_id mset.simps(2) mset_append union_mset_add_mset_right)
  also have "\<dots> = mset (take i a @ a ! i # drop (Suc i) a)"
    by simp
  also have "\<dots> = mset a"
    using assms(1) by (simp add: id_take_nth_drop[symmetric])
  finally have m: "mset ?moved = mset a" .
  have n: "?moved ! j = a ! i"
    using lj by (metis nth_append_length)
  have t: "take j ?moved = take j ?rest"
    using lj by (metis append_eq_conv_conj)
  have d: "drop (Suc j) ?moved = drop j ?rest"
    using lj by (simp del: length_take)
  have r: "take j ?moved @ drop (Suc j) ?moved = ?rest"
    unfolding t d by (rule append_take_drop_id)
  show ?thesis
    using assms(1) m n r by (simp add: arrayMove_def Let_def)
qed

lemma handleDragEnd_ignores:
  assumes "\<not> (\<exists>target. over event = Some target \<and> active event \<noteq> target
               \<and> active event \<in> img_id ` set (images p) \<and> target \<in> img_id ` set (images p))"
  shows "handleDragEnd p event s = s"
proof (cases "over event")
  case None
  then show ?thesis by (simp add: handleDragEnd_def)
next
  case (Some target)
  show ?thesis
  proof (cases "active event = target")
    case True
    with Some show ?thesis by (simp add: handleDragEnd_def)
  next
    case False
    with assms Some
    have "active event \<notin> img_id ` set (images p) \<or> target \<notin> img_id ` set (images p)"
      by blast
    then have "findIndex (\<lambda>item. img_id item = active event) (images p) = - 1
        \<or> findIndex (\<lambda>item. img_id item = target) (images p) = - 1"
    proof
      assume "active event \<notin> img_id ` set (images p)"
      then have "findIndex (\<lambda>item. img_id item = active event) (images p) = - 1"
        by (intro findIndex_absent) (metis imageI)
      then show ?thesis ..
    next
      assume "target \<notin> img_id ` set (images p)"
      then have "findIndex (\<lambda>item. img_id item = target) (images p) = - 1"
        by (intro findIndex_absent) (metis imageI)
      then show ?thesis ..
    qed
    with Some False show ?thesis
      by (auto simp: handleDragEnd_def Let_def)
  qed
qed

lemma handleDragEnd_relocates:
  assumes tgt: "over event = Some target" and ne: "active event \<noteq> target"
    and src: "active event \<in> img_id ` set (images p)"
    and dst: "target \<in> img_id ` set (images p)"
  shows "\<exists>moved i j.
          newEvents s (handleDragEnd p event s) = [OnImagesChange moved]
        \<and> i < length (images p) \<and> j < length (images p) \<and> i \<noteq> j
        \<and> img_id (images p ! i) = active event \<and> img_id (images p ! j) = target
        \<and> mset moved = mset (images p)
        \<and> set (map img_id moved) = set (map img_id (images p))
        \<and> moved ! j = images p ! i
        \<and> take j moved @ drop (Suc j) moved = take i (images p) @ drop (Suc i) (images p)"
proof -
  let ?old = "findIndex (\<lambda>item. img_id item = active event) (images p)"
  let ?new = "findIndex (\<lambda>item. img_id item = target) (images p)"
  from src have "\<exists>x\<in>set (images p). img_id x = active event" by auto
  from findIndex_present[OF this]
  have old: "0 \<le> ?old" "nat ?old < length (images p)" "img_id (images p ! nat ?old) = active event"
    by simp_all
  from dst have "\<exists>x\<in>set (images p). img_id x = target" by auto
  from findIndex_present[OF this]
  have new: "0 \<le> ?new" "nat ?new < length (images p)" "img_id (images p ! nat ?new) = target"
    by simp_all
  from ne old(3) new(3) have neq: "nat ?old \<noteq> nat ?new" by auto
  with old(1) new(1) have neq': "?old \<noteq> ?new" by auto
  from arrayMove_within[OF old(2) new(2)] obtain moved where
    mv: "arrayMove (images p) (nat ?old) (nat ?new) = Some moved"
    and ms: "mset moved = mset (images p)"
    and nth: "moved ! nat ?new = images p ! nat ?old"
    and rest: "take (nat ?new) moved @ drop (Suc (nat ?new)) moved
               = take (nat ?old) (images p) @ drop (Suc (nat ?old)) (images p)"
    by blast
  have "handleDragEnd p event s = callOnImagesChange moved s"
    using tgt ne old(1) new(1) neq' mv by (simp add: handleDragEnd_def Let_def)
  then have ev: "newEvents s (handleDragEnd p event s) = [OnImagesChange moved]"
    by (simp add: newEvents_def callOnImagesChange_def emit_def)
  from ms have "set moved = set (images p)"
    by (rule mset_eq_setD)
  then have ids: "set (map img_id moved) = set (map img_id (images p))"
    by simp
  show ?thesis
    using ev old(2,3) new(2,3) neq ms ids nth rest by blast
qed

subsection \<open>When onImagesChange is called\<close>

lemma filter_isChange_failure: "filter isChange (revokeFailure e p url) = []"
  by (simp add: revokeFailure_def reports_def split: option.splits)

lemma handleDelete_changes:
  "filter isChange (newEvents s (snd (handleDelete e p ident s)))
     = [OnImagesChange (filter (\<lambda>img. img_id img \<noteq> ident) (images p))]"
proof (cases "find (\<lambda>img. img_id img = ident) (images p)")
  case None
  have "newEvents s (snd (handleDelete e p ident s))
      = [OnImagesChange (filter (\<lambda>img. img_id img \<noteq> ident) (images p))]"
    by (rule newEvents_append) (simp add: handleDelete_absent[OF None])
  then show ?thesis by simp
next
  case (Some x)
  have "newEvents s (snd (handleDelete e p ident s))
      = (if preview x \<in> generatedUrls s
         then RevokeObjectURL (preview x) # revokeFailure e p (preview x) else [])
        @ [OnImagesChange (filter (\<lambda>img. img_id img \<noteq> ident) (images p))]"
    by (rule newEvents_append) (simp add: handleDelete_found[OF Some])
  then show ?thesis by (simp add: filter_isChange_failure)
qed

lemma filter_changed:
  "ident \<in> img_id ` set imgs \<Longrightarrow> filter (\<lambda>img. img_id img \<noteq> ident) imgs \<noteq> imgs"
  by (auto simp: filter_id_conv)

subsection \<open>The size bound, and single patterns\<close>

lemma accepts_unlimited:
  "maxFileSize p = Some 0 \<Longrightarrow> accepts p f = isAcceptedType f (Some (acceptedFileTypesOrDefault p))"
  by (simp add: accepts_def exceededBound_def maxFileSizeOrDefault_def)

lemma accepts_default:
  "maxFileSize p = None
   \<Longrightarrow> accepts p f = (int (file_size f) \<le> 10485760
                     \<and> isAcceptedType f (Some (acceptedFileTypesOrDefault p)))"
  by (auto simp: accepts_def exceededBound_def maxFileSizeOrDefault_def DEFAULT_MAX_FILE_SIZE_def)

lemma split_no_separator: "sep \<notin> set s \<Longrightarrow> split sep s = [s]"
  by (induction s) auto

lemma hd_split: "hd (split sep s) = takeWhile (\<lambda>c. c \<noteq> sep) s"
  by (induction s) (auto simp: split_nonempty split: list.splits)

lemma matchesPattern_image_wildcard:
  "matchesPattern f ''image/*'' = startsWith (file_type f) ''image/''"
  by (simp add: matchesPattern_def endsWith_def)

lemma isAcceptedType_single:
  assumes "pat \<noteq> []" "CHR '','' \<notin> set pat" "trim pat = pat"
  shows "isAcceptedType f (Some pat) = matchesPattern f (toLowerCase pat)"
proof (cases "pat = ''image/*''")
  case True
  then show ?thesis
    by (simp add: isAcceptedType_def matchesPattern_image_wildcard trim_def isSpace_def
        toLowerCase_def toLowerChar_def)
next
  case False
  with assms show ?thesis
    by (simp add: isAcceptedType_def split_no_separator)
qed

lemma hfs_oversized:
  assumes en: "\<not> disabled p"
    and bound: "maxFileSizeOrDefault p \<noteq> 0"
    and big: "int (file_size f) > maxFileSizeOrDefault p"
  shows "filter (concerns f) (newEvents s (handleFileSelect e p files s))
           = (if onError p
              then replicate (count_list files f)
                     (OnError (tooLargeError e f (maxFileSizeOrDefault p)))
              else [])
       \<and> (\<forall>url. CreateObjectURL f url \<notin> set (newEvents s (handleFileSelect e p files s)))
       \<and> (\<exists>added. owner (images p) (newEvents s (handleFileSelect e p files s))
                     = images p @ added
                   \<and> f \<notin> set (map img_file added))"
proof -
  from bound big have nacc: "\<not> accepts p f"
    by (simp add: accepts_def exceededBound_def)
  from bound big have rej: "rejection e p f = tooLargeError e f (maxFileSizeOrDefault p)"
    by (simp add: rejection_def exceededBound_def)
  obtain lim kept where
    tr: "trace (handleFileSelect e p files s)
        = trace s @ reports p (map (rejection e p) (rejected p files)) @ reports p lim
          @ acquisitions e s kept
          @ (if kept = [] then [] else [OnImagesChange (images p @ freshImages e s kept)])"
    and lim: "list_all (\<lambda>err. code err = MAX_FILES_EXCEEDED \<and> err_file err = None) lim"
    and kept: "list_all (accepts p) kept"
    using hfs_shape[OF en, of e files s] by blast
  let ?evs = "reports p (map (rejection e p) (rejected p files)) @ reports p lim
          @ acquisitions e s kept
          @ (if kept = [] then [] else [OnImagesChange (images p @ freshImages e s kept)])"
  have ne: "newEvents s (handleFileSelect e p files s) = ?evs"
    by (rule newEvents_append) (rule tr)
  from kept nacc have notkept: "f \<notin> set kept"
    by (auto simp: list_all_iff)
  have c1: "filter (concerns f) (reports p (map (rejection e p) (rejected p files)))
      = (if onError p
         then replicate (count_list files f)
                (OnError (tooLargeError e f (maxFileSizeOrDefault p)))
         else [])"
    by (simp add: reports_def filter_concerns_rejections count_list_rejected[OF nacc] rej)
  have c2: "filter (concerns f) (reports p lim) = []"
    by (rule filter_concerns_limit) (rule lim)
  have c3: "filter (concerns f) (acquisitions e s kept) = []"
    by (rule filter_acquisitions_none) simp
  have part1: "filter (concerns f) ?evs
      = (if onError p
         then replicate (count_list files f)
                (OnError (tooLargeError e f (maxFileSizeOrDefault p)))
         else [])"
    by (simp add: c1 c2 c3)
  have part2: "\<forall>url. CreateObjectURL f url \<notin> set ?evs"
    using notkept by (auto simp: reports_def dest: acquisitions_file)
  have nochange: "filter isChange (reports p (map (rejection e p) (rejected p files)) @ reports p lim) = []"
    by (simp add: filter_reports reports_def)
  have own: "owner (images p) ?evs = (if kept = [] then images p else images p @ freshImages e s kept)"
    using owner_added[of "images p" "reports p (map (rejection e p) (rejected p files)) @ reports p lim" e s kept]
      owner_no_change[OF nochange, of "images p"]
    by simp
  have part3: "\<exists>added. owner (images p) ?evs = images p @ added \<and> f \<notin> set (map img_file added)"
  proof (intro exI conjI)
    show "owner (images p) ?evs = images p @ freshImages e s kept"
      unfolding own by (simp add: freshImages_def)
    show "f \<notin> set (map img_file (freshImages e s kept))"
      using notkept by (simp add: map_img_file_freshImages)
  qed
  show ?thesis
    unfolding ne using part1 part2 part3 by simp
qed

lemma hfs_all_valid_added:
  assumes en: "\<not> disabled p" and valid: "valid = filter (accepts p) files" "valid \<noteq> []"
    and room: "remainingSlots p = Infinity
               \<or> (\<exists>r. remainingSlots p = Finite r \<and> int (length valid) \<le> r)"
  shows "newEvents s (handleFileSelect e p files s)
     = reports p (map (rejection e p) (rejected p files)) @ acquisitions e s valid
       @ [OnImagesChange (images p @ freshImages e s valid)]"
proof -
  from room valid(2) have room': "remainingSlots p = Infinity
      \<or> (\<exists>r. remainingSlots p = Finite r \<and> 0 < r)"
    by (cases valid) auto
  show ?thesis
    by (rule newEvents_append)
       (simp add: hfs_adds[OF en valid room' refl] keptFiles_room[OF room] truncation_room[OF room])
qed

lemma filter_hasCode_acquisitions: "filter (hasCode c) (acquisitions e s fs) = []"
  by (rule filter_acquisitions_none) simp

lemma filter_isChange_truncation: "filter isChange (truncation p fs) = []"
  by (simp add: truncation_def reports_def split: slots.splits)

lemma hfs_changes_sequence:
  assumes en: "\<not> disabled p" and ne: "filter (accepts p) files \<noteq> []"
    and room: "remainingSlots p = Infinity \<or> (\<exists>r. remainingSlots p = Finite r \<and> 0 < r)"
  shows "filter isChange (newEvents s (handleFileSelect e p files s))
           = [OnImagesChange
                (images p @ freshImages e s (keptFiles p (filter (accepts p) files)))]
       \<and> keptFiles p (filter (accepts p) files) \<noteq> []
       \<and> images p @ freshImages e s (keptFiles p (filter (accepts p) files)) \<noteq> images p
       \<and> owner (images p) (newEvents s (handleFileSelect e p files s))
           = images p @ freshImages e s (keptFiles p (filter (accepts p) files))"
proof -
  let ?valid = "filter (accepts p) files"
  let ?kept = "keptFiles p ?valid"
  let ?before = "reports p (map (rejection e p) (rejected p files)) @ truncation p ?valid
      @ acquisitions e s ?kept"
  have ev: "newEvents s (handleFileSelect e p files s)
      = ?before @ [OnImagesChange (images p @ freshImages e s ?kept)]"
    by (rule newEvents_append) (simp add: hfs_adds[OF en refl ne room refl])
  have quiet: "filter isChange ?before = []"
    by (simp add: filter_reports filter_isChange_truncation filter_acquisitions_none reports_def)
  have kne: "?kept \<noteq> []"
    using room ne by (auto simp: keptFiles_def)
  then have "freshImages e s ?kept \<noteq> []"
    by (simp add: freshImages_def)
  then have diff: "images p @ freshImages e s ?kept \<noteq> images p"
    by simp
  have fc: "filter isChange (newEvents s (handleFileSelect e p files s))
      = [OnImagesChange (images p @ freshImages e s ?kept)]"
    unfolding ev using quiet by simp
  have own: "owner (images p) (newEvents s (handleFileSelect e p files s))
      = images p @ freshImages e s ?kept"
    unfolding ev by (rule owner_last_change)
  from fc kne diff own show ?thesis by blast
qed

lemma hfs_keeps_sequence:
  assumes "disabled p \<or> filter (accepts p) files = []
           \<or> (\<exists>r. remainingSlots p = Finite r \<and> r \<le> 0)"
  shows "filter isChange (newEvents s (handleFileSelect e p files s)) = []
       \<and> owner (images p) (newEvents s (handleFileSelect e p files s)) = images p"
proof -
  have fc: "filter isChange (newEvents s (handleFileSelect e p files s)) = []"
  proof (cases "files = [] \<or> disabled p")
    case True
    then show ?thesis by (simp add: hfs_idle newEvents_def)
  next
    case False
    then have en: "\<not> disabled p" and fne: "files \<noteq> []" by simp_all
    show ?thesis
    proof (cases "filter (accepts p) files = []")
      case True
      have "newEvents s (handleFileSelect e p files s)
          = reports p (map (rejection e p) (rejected p files))"
        by (rule newEvents_append) (simp add: hfs_rejected[OF en fne True])
      then show ?thesis by (simp add: filter_reports reports_def)
    next
      case valid: False
      with assms en obtain r where slots: "remainingSlots p = Finite r" and full: "r \<le> 0"
        by blast
      have "newEvents s (handleFileSelect e p files s)
          = reports p (map (rejection e p) (rejected p files)) @ reports p [noneAdded p]"
        by (rule newEvents_append) (simp add: hfs_full[OF en valid slots full])
      then show ?thesis by (simp add: filter_reports reports_def)
    qed
  qed
  then have "owner (images p) (newEvents s (handleFileSelect e p files s)) = images p"
    by (rule owner_no_change)
  with fc show ?thesis by blast
qed

lemma handleDragEnd_effective:
  assumes t: "over event = Some target" "active event \<noteq> target"
      "active event \<in> img_id ` set (images p)" "target \<in> img_id ` set (images p)"
  shows "\<exists>moved. moved \<noteq> images p \<and> mset moved = mset (images p)
       \<and> newEvents s (handleDragEnd p event s) = [OnImagesChange moved]"
proof -
  from handleDragEnd_relocates[OF t, of s] obtain moved i j where
    ev: "newEvents s (handleDragEnd p event s) = [OnImagesChange moved]"
    and ij: "img_id (images p ! i) = active event" "img_id (images p ! j) = target"
    and ms: "mset moved = mset (images p)" and nth: "moved ! j = images p ! i"
    by blast
  from ij nth t(2) have "moved ! j \<noteq> images p ! j" by auto
  then have "moved \<noteq> images p" by auto
  with ev ms show ?thesis by blast
qed

lemma handleDelete_owner:
  "owner (images p) (newEvents s (snd (handleDelete e p ident s)))
     = filter (\<lambda>img. img_id img \<noteq> ident) (images p)"
proof (cases "find (\<lambda>img. img_id img = ident) (images p)")
  case None
  have "newEvents s (snd (handleDelete e p ident s))
      = [OnImagesChange (filter (\<lambda>img. img_id img \<noteq> ident) (images p))]"
    by (rule newEvents_append) (simp add: handleDelete_absent[OF None])
  then show ?thesis by simp
next
  case (Some x)
  have "newEvents s (snd (handleDelete e p ident s))
      = (if preview x \<in> generatedUrls s
         then RevokeObjectURL (preview x) # revokeFailure e p (preview x) else [])
        @ [OnImagesChange (filter (\<lambda>img. img_id img \<noteq> ident) (images p))]"
    by (rule newEvents_append) (simp add: handleDelete_found[OF Some])
  then show ?thesis by (simp only: owner_last_change)
qed

lemma filter_hasCode_limit:
  "list_all (\<lambda>err. code err = MAX_FILES_EXCEEDED \<and> err_file err = None) lim
   \<Longrightarrow> filter (hasCode FILE_TOO_LARGE) (reports p lim) = []"
  by (auto simp: reports_def filter_empty_conv list_all_iff)

lemma hfs_unlimited_size:
  assumes "maxFileSize p = Some 0"
  shows "filter (hasCode FILE_TOO_LARGE) (newEvents s (handleFileSelect e p files s)) = []"
proof (cases "disabled p")
  case True
  then show ?thesis by (simp add: hfs_idle newEvents_def)
next
  case False
  from hfs_shape[OF False, of e files s] obtain lim kept where
    tr: "trace (handleFileSelect e p files s)
        = trace s @ reports p (map (rejection e p) (rejected p files)) @ reports p lim
          @ acquisitions e s kept
          @ (if kept = [] then [] else [OnImagesChange (images p @ freshImages e s kept)])"
    and lim: "list_all (\<lambda>err. code err = MAX_FILES_EXCEEDED \<and> err_file err = None) lim"
    by blast
  have ev: "newEvents s (handleFileSelect e p files s)
        = reports p (map (rejection e p) (rejected p files)) @ reports p lim
          @ acquisitions e s kept
          @ (if kept = [] then [] else [OnImagesChange (images p @ freshImages e s kept)])"
    by (rule newEvents_append) (rule tr)
  have rej: "\<And>f. code (rejection e p f) = INVALID_TYPE"
    using assms
    by (simp add: rejection_def exceededBound_def maxFileSizeOrDefault_def invalidTypeError_def)
  have r1: "filter (hasCode FILE_TOO_LARGE) (reports p (map (rejection e p) (rejected p files))) = []"
    by (auto simp: reports_def filter_empty_conv rej)
  show ?thesis
    unfolding ev
    by (simp add: r1 filter_hasCode_limit[OF lim] filter_acquisitions_none)
qed

text \<open>The definitions that evaluate the concrete inputs.\<close>

lemmas evals = browser_def mounted_def homeProps_def png_def pdf_def image_def
  accepts_def exceededBound_def maxFileSizeOrDefault_def acceptedFileTypesOrDefault_def
  DEFAULT_MAX_FILE_SIZE_def isAcceptedType_def trim_def isSpace_def startsWith_def
  remainingSlots_def acquisitions_def freshImages_def showNat.simps

subsection \<open>Add appends the accepted files\<close>

text \<open>
  C1. When the component is not disabled, every file of the batch is accepted (within the
  size bound and of an accepted type), and there is no ceiling or the remaining capacity
  holds the whole batch, \<^verbatim>\<open>handleFileSelect\<close> does exactly this: one
  \<^verbatim>\<open>URL.createObjectURL\<close> per file in input order, then one
  \<^verbatim>\<open>onImagesChange\<close> with the current sequence followed by one new image per
  file, in input order. The k-th new image holds the k-th file, the result of the k-th
  next call of \<^verbatim>\<open>generateId\<close> and the URL of the k-th next call of
  \<^verbatim>\<open>URL.createObjectURL\<close>. An empty batch does nothing.
\<close>

theorem handleFileSelect_appends:
  assumes "\<not> disabled p"
    and "list_all (accepts p) files"
    and "remainingSlots p = Infinity
         \<or> (\<exists>r. remainingSlots p = Finite r \<and> int (length files) \<le> r)"
  shows "newEvents s (handleFileSelect e p files s)
           = (if files = [] then []
              else acquisitions e s files @ [OnImagesChange (images p @ freshImages e s files)])
       \<and> owner (images p) (newEvents s (handleFileSelect e p files s))
           = images p @ freshImages e s files
       \<and> map img_file (freshImages e s files) = files
       \<and> map img_id (freshImages e s files)
           = map (\<lambda>k. randomId e (idCalls s + k)) [0..<length files]
       \<and> map preview (freshImages e s files)
           = map (\<lambda>k. objectUrl e (urlCalls s + k)) [0..<length files]"
proof (cases "files = []")
  case True
  then show ?thesis
    by (simp add: hfs_idle newEvents_def freshImages_def)
next
  case False
  have ev: "newEvents s (handleFileSelect e p files s)
      = acquisitions e s files @ [OnImagesChange (images p @ freshImages e s files)]"
    by (rule newEvents_append) (rule handleFileSelect_all_accepted[OF assms(1,2) False assms(3)])
  have own: "owner (images p) (newEvents s (handleFileSelect e p files s))
      = images p @ freshImages e s files"
    unfolding ev append_assoc[symmetric] by (simp only: owner_last_change)
  have fl: "map img_file (freshImages e s files) = files"
    by (simp add: freshImages_def comp_def map_nth)
  show ?thesis
    using False ev own fl by (simp add: freshImages_def comp_def)
qed

theorem handleFileSelect_appends_witness:
  "\<not> disabled homeProps
   \<and> list_all (accepts homeProps) [png ''a.png'' 100, png ''b.png'' 200]
   \<and> remainingSlots homeProps = Finite 10
   \<and> newEvents mounted
        (handleFileSelect browser homeProps [png ''a.png'' 100, png ''b.png'' 200] mounted)
      = [CreateObjectURL (png ''a.png'' 100) ''blob:0'',
         CreateObjectURL (png ''b.png'' 200) ''blob:1'',
         OnImagesChange
           [\<lparr>img_id = ''id-0'', img_file = png ''a.png'' 100, preview = ''blob:0''\<rparr>,
            \<lparr>img_id = ''id-1'', img_file = png ''b.png'' 200, preview = ''blob:1''\<rparr>]]"
proof -
  have h1: "\<not> disabled homeProps"
    by (simp add: homeProps_def)
  have h2: "list_all (accepts homeProps) [png ''a.png'' 100, png ''b.png'' 200]"
    by (simp add: evals)
  have h3: "remainingSlots homeProps = Finite 10"
    by (simp add: evals)
  have h3': "remainingSlots homeProps = Infinity
     \<or> (\<exists>r. remainingSlots homeProps = Finite r
            \<and> int (length [png ''a.png'' 100, png ''b.png'' 200]) \<le> r)"
    by (simp add: h3)
  show ?thesis
    using handleFileSelect_appends[OF h1 h2 h3', of mounted browser] h1 h2 h3
    by (simp add: evals)
qed

subsection \<open>Add rejects a file over the size bound\<close>

text \<open>
  C5. The component is not disabled, an error callback is supplied, a size bound is
  configured (\<^verbatim>\<open>maxFileSize\<close> or its default, not 0) and the file is larger. Then
  among the events of \<^verbatim>\<open>handleFileSelect\<close> the calls of the error callback that
  carry this file are exactly one per occurrence of the file in the batch (one, when the
  batch lists it once), each with the \<^verbatim>\<open>FILE_TOO_LARGE\<close> error that carries the file;
  no \<^verbatim>\<open>URL.createObjectURL\<close> is called on the file; and no image added to the
  sequence holds it.
\<close>

theorem handleFileSelect_too_large:
  assumes en: "\<not> disabled p" and sink: "onError p"
    and bound: "maxFileSizeOrDefault p \<noteq> 0"
    and big: "int (file_size f) > maxFileSizeOrDefault p"
  shows "filter (concerns f) (newEvents s (handleFileSelect e p files s))
           = replicate (count_list files f) (OnError (tooLargeError e f (maxFileSizeOrDefault p)))
       \<and> code (tooLargeError e f (maxFileSizeOrDefault p)) = FILE_TOO_LARGE
       \<and> err_file (tooLargeError e f (maxFileSizeOrDefault p)) = Some f
       \<and> (\<forall>url. CreateObjectURL f url \<notin> set (newEvents s (handleFileSelect e p files s)))
       \<and> (\<exists>added. owner (images p) (newEvents s (handleFileSelect e p files s))
                     = images p @ added
                   \<and> f \<notin> set (map img_file added))"
  using hfs_oversized[OF en bound big, of s e files] sink
  by (simp add: tooLargeError_def)

theorem handleFileSelect_too_large_witness:
  "\<not> disabled homeProps \<and> onError homeProps \<and> maxFileSizeOrDefault homeProps = 10485760
   \<and> int (file_size (png ''big.png'' 20000000)) > maxFileSizeOrDefault homeProps
   \<and> filter (concerns (png ''big.png'' 20000000))
        (newEvents mounted
           (handleFileSelect browser homeProps
              [png ''a.png'' 100, png ''big.png'' 20000000] mounted))
      = [OnError (tooLargeError browser (png ''big.png'' 20000000) 10485760)]"
proof -
  have h1: "\<not> disabled homeProps" and h2: "onError homeProps"
    by (simp_all add: homeProps_def)
  have h3: "maxFileSizeOrDefault homeProps = 10485760"
    by (simp add: evals)
  have h4: "int (file_size (png ''big.png'' 20000000)) > maxFileSizeOrDefault homeProps"
    by (simp add: h3 png_def)
  have h3': "maxFileSizeOrDefault homeProps \<noteq> 0"
    by (simp add: h3)
  have cnt: "count_list [png ''a.png'' 100, png ''big.png'' 20000000] (png ''big.png'' 20000000) = 1"
    by (simp add: png_def)
  show ?thesis
    using handleFileSelect_too_large[OF h1 h2 h3' h4, of mounted browser
        "[png ''a.png'' 100, png ''big.png'' 20000000]"] h1 h2 h3 h4
    by (simp only: cnt) (simp add: h3)
qed

subsection \<open>Add under the ceiling\<close>

text \<open>
  C2, as the code has it. The component is not disabled and an error callback is supplied.
  A batch with no accepted file gets the validation errors of its files and nothing else:
  no \<^verbatim>\<open>MAX_FILES_EXCEEDED\<close>, whatever the ceiling. For a batch with at least one
  accepted file: when \<^verbatim>\<open>maxFiles\<close> is omitted or 0 there is no ceiling, and every
  accepted file is added with no \<^verbatim>\<open>MAX_FILES_EXCEEDED\<close>; when \<^verbatim>\<open>maxFiles\<close> is a
  number N other than 0, with r = N minus the current length,
  if r is 0 or less, \<^verbatim>\<open>handleFileSelect\<close> reports the rejected files and then exactly
  one \<^verbatim>\<open>MAX_FILES_EXCEEDED\<close> error, calls neither \<^verbatim>\<open>onImagesChange\<close> nor
  \<^verbatim>\<open>URL.createObjectURL\<close>, and the sequence stays as it is;
  if r is positive and smaller than the number of accepted files, it reports the rejected
  files, then exactly one \<^verbatim>\<open>MAX_FILES_EXCEEDED\<close> error whose message gives r, the
  number of accepted files and N, and then adds the first r accepted files in input order;
  if r is at least the number of accepted files, it adds them all with no
  \<^verbatim>\<open>MAX_FILES_EXCEEDED\<close>.
\<close>

theorem handleFileSelect_ceiling:
  assumes en: "\<not> disabled p" and sink: "onError p"
    and valid: "valid = filter (accepts p) files"
    and r: "r = N - int (length (images p))"
  shows "(files \<noteq> [] \<and> valid = [] \<longrightarrow>
            newEvents s (handleFileSelect e p files s)
              = map (OnError \<circ> rejection e p) (rejected p files)
          \<and> filter (hasCode MAX_FILES_EXCEEDED) (newEvents s (handleFileSelect e p files s)) = []
          \<and> owner (images p) (newEvents s (handleFileSelect e p files s)) = images p
          \<and> generatedUrls (handleFileSelect e p files s) = generatedUrls s)
       \<and> (valid \<noteq> [] \<and> (maxFiles p = None \<or> maxFiles p = Some 0) \<longrightarrow>
            newEvents s (handleFileSelect e p files s)
              = map (OnError \<circ> rejection e p) (rejected p files)
                @ acquisitions e s valid
                @ [OnImagesChange (images p @ freshImages e s valid)]
          \<and> filter (hasCode MAX_FILES_EXCEEDED) (newEvents s (handleFileSelect e p files s)) = []
          \<and> owner (images p) (newEvents s (handleFileSelect e p files s))
              = images p @ freshImages e s valid)
       \<and> (valid \<noteq> [] \<and> maxFiles p = Some N \<and> N \<noteq> 0 \<and> r \<le> 0 \<longrightarrow>
            newEvents s (handleFileSelect e p files s)
              = map (OnError \<circ> rejection e p) (rejected p files) @ [OnError (noneAdded p)]
          \<and> filter (hasCode MAX_FILES_EXCEEDED) (newEvents s (handleFileSelect e p files s))
              = [OnError (noneAdded p)]
          \<and> owner (images p) (newEvents s (handleFileSelect e p files s)) = images p
          \<and> generatedUrls (handleFileSelect e p files s) = generatedUrls s)
       \<and> (valid \<noteq> [] \<and> maxFiles p = Some N \<and> N \<noteq> 0 \<and> 0 < r \<and> r < int (length valid) \<longrightarrow>
            newEvents s (handleFileSelect e p files s)
              = map (OnError \<circ> rejection e p) (rejected p files)
                @ [OnError (onlySomeAdded p r (length valid))]
                @ acquisitions e s (take (nat r) valid)
                @ [OnImagesChange (images p @ freshImages e s (take (nat r) valid))]
          \<and> filter (hasCode MAX_FILES_EXCEEDED) (newEvents s (handleFileSelect e p files s))
              = [OnError (onlySomeAdded p r (length valid))]
          \<and> message (onlySomeAdded p r (length valid))
              = ''Only '' @ showInt r @ '' of '' @ showNat (length valid)
                @ '' files were added due to limit of '' @ showInt N @ ''.''
          \<and> owner (images p) (newEvents s (handleFileSelect e p files s))
              = images p @ freshImages e s (take (nat r) valid))
       \<and> (valid \<noteq> [] \<and> maxFiles p = Some N \<and> N \<noteq> 0 \<and> int (length valid) \<le> r \<longrightarrow>
            newEvents s (handleFileSelect e p files s)
              = map (OnError \<circ> rejection e p) (rejected p files)
                @ acquisitions e s valid
                @ [OnImagesChange (images p @ freshImages e s valid)]
          \<and> filter (hasCode MAX_FILES_EXCEEDED) (newEvents s (handleFileSelect e p files s)) = []
          \<and> owner (images p) (newEvents s (handleFileSelect e p files s))
              = images p @ freshImages e s valid)"
proof -
  have added: "newEvents s (handleFileSelect e p files s)
              = map (OnError \<circ> rejection e p) (rejected p files)
                @ acquisitions e s valid
                @ [OnImagesChange (images p @ freshImages e s valid)]
          \<and> filter (hasCode MAX_FILES_EXCEEDED) (newEvents s (handleFileSelect e p files s)) = []
          \<and> owner (images p) (newEvents s (handleFileSelect e p files s))
              = images p @ freshImages e s valid"
    if ne: "valid \<noteq> []"
      and room: "remainingSlots p = Infinity
               \<or> (\<exists>r. remainingSlots p = Finite r \<and> int (length valid) \<le> r)"
  proof -
    have ev: "newEvents s (handleFileSelect e p files s)
        = map (OnError \<circ> rejection e p) (rejected p files)
          @ acquisitions e s valid
          @ [OnImagesChange (images p @ freshImages e s valid)]"
      using hfs_all_valid_added[OF en valid ne room, of s e] by (simp add: reports_def sink)
    have lim: "filter (hasCode MAX_FILES_EXCEEDED) (newEvents s (handleFileSelect e p files s)) = []"
      unfolding ev by (simp add: filter_hasCode_rejections filter_hasCode_acquisitions)
    have own: "owner (images p) (newEvents s (handleFileSelect e p files s))
        = images p @ freshImages e s valid"
      unfolding ev
      using owner_last_change[of "images p"
          "map (OnError \<circ> rejection e p) (rejected p files) @ acquisitions e s valid"]
      by simp
    from ev lim own show ?thesis by blast
  qed
  have c1: "files \<noteq> [] \<and> valid = [] \<longrightarrow>
            newEvents s (handleFileSelect e p files s)
              = map (OnError \<circ> rejection e p) (rejected p files)
          \<and> filter (hasCode MAX_FILES_EXCEEDED) (newEvents s (handleFileSelect e p files s)) = []
          \<and> owner (images p) (newEvents s (handleFileSelect e p files s)) = images p
          \<and> generatedUrls (handleFileSelect e p files s) = generatedUrls s"
  proof
    assume a: "files \<noteq> [] \<and> valid = []"
    then have st: "handleFileSelect e p files s
        = s\<lparr>trace := trace s @ reports p (map (rejection e p) (rejected p files))\<rparr>"
      using valid by (intro hfs_rejected[OF en]) simp_all
    have ev: "newEvents s (handleFileSelect e p files s)
        = map (OnError \<circ> rejection e p) (rejected p files)"
      by (rule newEvents_append) (simp add: st reports_def sink)
    have "filter (hasCode MAX_FILES_EXCEEDED) (newEvents s (handleFileSelect e p files s)) = []"
      unfolding ev by (rule filter_hasCode_rejections)
    moreover have "owner (images p) (newEvents s (handleFileSelect e p files s)) = images p"
      unfolding ev by (rule owner_no_change) (simp add: filter_empty_conv)
    moreover have "generatedUrls (handleFileSelect e p files s) = generatedUrls s"
      by (simp add: st)
    ultimately show "newEvents s (handleFileSelect e p files s)
              = map (OnError \<circ> rejection e p) (rejected p files)
          \<and> filter (hasCode MAX_FILES_EXCEEDED) (newEvents s (handleFileSelect e p files s)) = []
          \<and> owner (images p) (newEvents s (handleFileSelect e p files s)) = images p
          \<and> generatedUrls (handleFileSelect e p files s) = generatedUrls s"
      using ev by blast
  qed
  have c2: "valid \<noteq> [] \<and> (maxFiles p = None \<or> maxFiles p = Some 0) \<longrightarrow>
            newEvents s (handleFileSelect e p files s)
              = map (OnError \<circ> rejection e p) (rejected p files)
                @ acquisitions e s valid
                @ [OnImagesChange (images p @ freshImages e s valid)]
          \<and> filter (hasCode MAX_FILES_EXCEEDED) (newEvents s (handleFileSelect e p files s)) = []
          \<and> owner (images p) (newEvents s (handleFileSelect e p files s))
              = images p @ freshImages e s valid"
  proof
    assume a: "valid \<noteq> [] \<and> (maxFiles p = None \<or> maxFiles p = Some 0)"
    then have "remainingSlots p = Infinity"
      by (auto simp: remainingSlots_def)
    with a show "newEvents s (handleFileSelect e p files s)
              = map (OnError \<circ> rejection e p) (rejected p files)
                @ acquisitions e s valid
                @ [OnImagesChange (images p @ freshImages e s valid)]
          \<and> filter (hasCode MAX_FILES_EXCEEDED) (newEvents s (handleFileSelect e p files s)) = []
          \<and> owner (images p) (newEvents s (handleFileSelect e p files s))
              = images p @ freshImages e s valid"
      by (intro added) simp_all
  qed
  have c3: "valid \<noteq> [] \<and> maxFiles p = Some N \<and> N \<noteq> 0 \<and> r \<le> 0 \<longrightarrow>
            newEvents s (handleFileSelect e p files s)
              = map (OnError \<circ> rejection e p) (rejected p files) @ [OnError (noneAdded p)]
          \<and> filter (hasCode MAX_FILES_EXCEEDED) (newEvents s (handleFileSelect e p files s))
              = [OnError (noneAdded p)]
          \<and> owner (images p) (newEvents s (handleFileSelect e p files s)) = images p
          \<and> generatedUrls (handleFileSelect e p files s) = generatedUrls s"
  proof
    assume a: "valid \<noteq> [] \<and> maxFiles p = Some N \<and> N \<noteq> 0 \<and> r \<le> 0"
    then have slots: "remainingSlots p = Finite 0"
      using remainingSlots_ceiling[of p N] r by simp
    have st: "handleFileSelect e p files s
       = s\<lparr>trace := trace s @ reports p (map (rejection e p) (rejected p files))
                   @ reports p [noneAdded p]\<rparr>"
      using valid a by (intro hfs_full[OF en _ slots]) simp_all
    have ev: "newEvents s (handleFileSelect e p files s)
        = map (OnError \<circ> rejection e p) (rejected p files) @ [OnError (noneAdded p)]"
      by (rule newEvents_append) (simp add: st reports_def sink)
    have "filter (hasCode MAX_FILES_EXCEEDED) (newEvents s (handleFileSelect e p files s))
        = [OnError (noneAdded p)]"
      unfolding ev by (simp add: filter_hasCode_rejections noneAdded_def maxFilesExceeded_def)
    moreover have "owner (images p) (newEvents s (handleFileSelect e p files s)) = images p"
      unfolding ev by (rule owner_no_change) (simp add: filter_empty_conv)
    moreover have "generatedUrls (handleFileSelect e p files s) = generatedUrls s"
      by (simp add: st)
    ultimately show "newEvents s (handleFileSelect e p files s)
              = map (OnError \<circ> rejection e p) (rejected p files) @ [OnError (noneAdded p)]
          \<and> filter (hasCode MAX_FILES_EXCEEDED) (newEvents s (handleFileSelect e p files s))
              = [OnError (noneAdded p)]
          \<and> owner (images p) (newEvents s (handleFileSelect e p files s)) = images p
          \<and> generatedUrls (handleFileSelect e p files s) = generatedUrls s"
      using ev by blast
  qed
  have c4: "valid \<noteq> [] \<and> maxFiles p = Some N \<and> N \<noteq> 0 \<and> 0 < r \<and> r < int (length valid) \<longrightarrow>
            newEvents s (handleFileSelect e p files s)
              = map (OnError \<circ> rejection e p) (rejected p files)
                @ [OnError (onlySomeAdded p r (length valid))]
                @ acquisitions e s (take (nat r) valid)
                @ [OnImagesChange (images p @ freshImages e s (take (nat r) valid))]
          \<and> filter (hasCode MAX_FILES_EXCEEDED) (newEvents s (handleFileSelect e p files s))
              = [OnError (onlySomeAdded p r (length valid))]
          \<and> message (onlySomeAdded p r (length valid))
              = ''Only '' @ showInt r @ '' of '' @ showNat (length valid)
                @ '' files were added due to limit of '' @ showInt N @ ''.''
          \<and> owner (images p) (newEvents s (handleFileSelect e p files s))
              = images p @ freshImages e s (take (nat r) valid)"
  proof
    assume a: "valid \<noteq> [] \<and> maxFiles p = Some N \<and> N \<noteq> 0 \<and> 0 < r \<and> r < int (length valid)"
    then have ne: "valid \<noteq> []" and ceil: "maxFiles p = Some N"
      and part: "0 < r \<and> r < int (length valid)"
      by simp_all
    have slots: "remainingSlots p = Finite r"
      using remainingSlots_ceiling[of p N] a r by simp
    have kept: "keptFiles p valid = take (nat r) valid"
      by (simp add: keptFiles_def slots)
    have trunc: "truncation p valid = [OnError (onlySomeAdded p r (length valid))]"
      using part by (simp add: truncation_def slots reports_def sink)
    have room: "remainingSlots p = Infinity \<or> (\<exists>r. remainingSlots p = Finite r \<and> 0 < r)"
      using slots part by simp
    have ev: "newEvents s (handleFileSelect e p files s)
        = map (OnError \<circ> rejection e p) (rejected p files)
          @ [OnError (onlySomeAdded p r (length valid))]
          @ acquisitions e s (take (nat r) valid)
          @ [OnImagesChange (images p @ freshImages e s (take (nat r) valid))]"
      by (rule newEvents_append)
         (simp add: hfs_adds[OF en valid ne room kept[symmetric]] trunc reports_def sink)
    have "filter (hasCode MAX_FILES_EXCEEDED) (newEvents s (handleFileSelect e p files s))
        = [OnError (onlySomeAdded p r (length valid))]"
      unfolding ev
      by (simp add: filter_hasCode_rejections filter_hasCode_acquisitions onlySomeAdded_def
          maxFilesExceeded_def)
    moreover have "message (onlySomeAdded p r (length valid))
        = ''Only '' @ showInt r @ '' of '' @ showNat (length valid)
          @ '' files were added due to limit of '' @ showInt N @ ''.''"
      by (simp add: onlySomeAdded_def maxFilesExceeded_def showOptInt_def ceil)
    moreover have "owner (images p) (newEvents s (handleFileSelect e p files s))
        = images p @ freshImages e s (take (nat r) valid)"
      unfolding ev
      using owner_last_change[of "images p"
          "map (OnError \<circ> rejection e p) (rejected p files)
           @ [OnError (onlySomeAdded p r (length valid))]
           @ acquisitions e s (take (nat r) valid)"]
      by simp
    ultimately show "newEvents s (handleFileSelect e p files s)
              = map (OnError \<circ> rejection e p) (rejected p files)
                @ [OnError (onlySomeAdded p r (length valid))]
                @ acquisitions e s (take (nat r) valid)
                @ [OnImagesChange (images p @ freshImages e s (take (nat r) valid))]
          \<and> filter (hasCode MAX_FILES_EXCEEDED) (newEvents s (handleFileSelect e p files s))
              = [OnError (onlySomeAdded p r (length valid))]
          \<and> message (onlySomeAdded p r (length valid))
              = ''Only '' @ showInt r @ '' of '' @ showNat (length valid)
                @ '' files were added due to limit of '' @ showInt N @ ''.''
          \<and> owner (images p) (newEvents s (handleFileSelect e p files s))
              = images p @ freshImages e s (take (nat r) valid)"
      using ev by blast
  qed
  have c5: "valid \<noteq> [] \<and> maxFiles p = Some N \<and> N \<noteq> 0 \<and> int (length valid) \<le> r \<longrightarrow>
            newEvents s (handleFileSelect e p files s)
              = map (OnError \<circ> rejection e p) (rejected p files)
                @ acquisitions e s valid
                @ [OnImagesChange (images p @ freshImages e s valid)]
          \<and> filter (hasCode MAX_FILES_EXCEEDED) (newEvents s (handleFileSelect e p files s)) = []
          \<and> owner (images p) (newEvents s (handleFileSelect e p files s))
              = images p @ freshImages e s valid"
  proof
    assume a: "valid \<noteq> [] \<and> maxFiles p = Some N \<and> N \<noteq> 0 \<and> int (length valid) \<le> r"
    then have "remainingSlots p = Finite r"
      using remainingSlots_ceiling[of p N] r by simp
    with a show "newEvents s (handleFileSelect e p files s)
              = map (OnError \<circ> rejection e p) (rejected p files)
                @ acquisitions e s valid
                @ [OnImagesChange (images p @ freshImages e s valid)]
          \<and> filter (hasCode MAX_FILES_EXCEEDED) (newEvents s (handleFileSelect e p files s)) = []
          \<and> owner (images p) (newEvents s (handleFileSelect e p files s))
              = images p @ freshImages e s valid"
      by (intro added) simp_all
  qed
  from c1 c2 c3 c4 c5 show ?thesis by (intro conjI)
qed

theorem handleFileSelect_ceiling_witness:
  "\<not> disabled (homeProps\<lparr>maxFiles := Some 1\<rparr>) \<and> onError (homeProps\<lparr>maxFiles := Some 1\<rparr>)
   \<and> filter (accepts (homeProps\<lparr>maxFiles := Some 1\<rparr>))
        [png ''a.png'' 100, png ''b.png'' 200, png ''c.png'' 300]
      = [png ''a.png'' 100, png ''b.png'' 200, png ''c.png'' 300]
   \<and> newEvents mounted
        (handleFileSelect browser (homeProps\<lparr>maxFiles := Some 1\<rparr>)
           [png ''a.png'' 100, png ''b.png'' 200, png ''c.png'' 300] mounted)
      = [OnError (maxFilesExceeded ''Only 1 of 3 files were added due to limit of 1.''),
         CreateObjectURL (png ''a.png'' 100) ''blob:0'',
         OnImagesChange
           [\<lparr>img_id = ''id-0'', img_file = png ''a.png'' 100, preview = ''blob:0''\<rparr>]]
   \<and> newEvents mounted
        (handleFileSelect browser
           (homeProps\<lparr>images := [image ''x'' ''blob:x''], maxFiles := Some 1\<rparr>)
           [png ''a.png'' 100] mounted)
      = [OnError (maxFilesExceeded ''Maximum of 1 files allowed.'')]
   \<and> filter (accepts (homeProps\<lparr>images := [image ''x'' ''blob:x''], maxFiles := Some 1\<rparr>))
        [pdf ''a.pdf'' 100] = []
   \<and> newEvents mounted
        (handleFileSelect browser
           (homeProps\<lparr>images := [image ''x'' ''blob:x''], maxFiles := Some 1\<rparr>)
           [pdf ''a.pdf'' 100] mounted)
      = [OnError (invalidTypeError (pdf ''a.pdf'' 100) (Some ''image/*''))]
   \<and> maxFiles (homeProps\<lparr>maxFiles := Some 0\<rparr>) = Some 0
   \<and> newEvents mounted
        (handleFileSelect browser (homeProps\<lparr>maxFiles := Some 0\<rparr>) [png ''a.png'' 100] mounted)
      = [CreateObjectURL (png ''a.png'' 100) ''blob:0'',
         OnImagesChange
           [\<lparr>img_id = ''id-0'', img_file = png ''a.png'' 100, preview = ''blob:0''\<rparr>]]
   \<and> maxFiles homeProps = Some 10
   \<and> newEvents mounted (handleFileSelect browser homeProps [png ''a.png'' 100] mounted)
      = [CreateObjectURL (png ''a.png'' 100) ''blob:0'',
         OnImagesChange
           [\<lparr>img_id = ''id-0'', img_file = png ''a.png'' 100, preview = ''blob:0''\<rparr>]]"
proof -
  let ?P = "homeProps\<lparr>maxFiles := Some 1\<rparr>"
  let ?F = "homeProps\<lparr>images := [image ''x'' ''blob:x''], maxFiles := Some 1\<rparr>"
  let ?Z = "homeProps\<lparr>maxFiles := Some 0\<rparr>"
  let ?abc = "[png ''a.png'' 100, png ''b.png'' 200, png ''c.png'' 300]"
  have enP: "\<not> disabled ?P" and sinkP: "onError ?P" and ceilP: "maxFiles ?P = Some 1"
    and enF: "\<not> disabled ?F" and sinkF: "onError ?F" and ceilF: "maxFiles ?F = Some 1"
    and enZ: "\<not> disabled ?Z" and sinkZ: "onError ?Z" and ceilZ: "maxFiles ?Z = Some 0"
    and enH: "\<not> disabled homeProps" and sinkH: "onError homeProps"
    and ceilH: "maxFiles homeProps = Some 10"
    by (simp_all add: homeProps_def)
  have vP: "filter (accepts ?P) ?abc = ?abc"
    by (simp add: evals)
  have vF: "filter (accepts ?F) [png ''a.png'' 100] = [png ''a.png'' 100]"
    by (simp add: evals)
  have vR: "filter (accepts ?F) [pdf ''a.pdf'' 100] = []"
    by (simp add: evals matchesPattern_def)
  have vZ: "filter (accepts ?Z) [png ''a.png'' 100] = [png ''a.png'' 100]"
    by (simp add: evals)
  have vH: "filter (accepts homeProps) [png ''a.png'' 100] = [png ''a.png'' 100]"
    by (simp add: evals)
  have rej: "rejection browser ?F (pdf ''a.pdf'' 100)
      = invalidTypeError (pdf ''a.pdf'' 100) (Some ''image/*'')"
    by (simp add: rejection_def evals)
  have kept: "newEvents mounted (handleFileSelect browser ?P ?abc mounted)
      = [OnError (maxFilesExceeded ''Only 1 of 3 files were added due to limit of 1.''),
         CreateObjectURL (png ''a.png'' 100) ''blob:0'',
         OnImagesChange
           [\<lparr>img_id = ''id-0'', img_file = png ''a.png'' 100, preview = ''blob:0''\<rparr>]]"
    using handleFileSelect_ceiling[where N = 1 and s = mounted and e = browser,
        OF enP sinkP vP[symmetric] refl] ceilP
    by (simp add: evals rejected_def onlySomeAdded_def showInt_def showOptInt_def)
  have full: "newEvents mounted (handleFileSelect browser ?F [png ''a.png'' 100] mounted)
      = [OnError (maxFilesExceeded ''Maximum of 1 files allowed.'')]"
    using handleFileSelect_ceiling[where N = 1 and s = mounted and e = browser,
        OF enF sinkF vF[symmetric] refl] ceilF
    by (simp add: evals rejected_def noneAdded_def showInt_def showOptInt_def)
  have none: "newEvents mounted (handleFileSelect browser ?F [pdf ''a.pdf'' 100] mounted)
      = [OnError (invalidTypeError (pdf ''a.pdf'' 100) (Some ''image/*''))]"
    using handleFileSelect_ceiling[where N = 1 and s = mounted and e = browser,
        OF enF sinkF vR[symmetric] refl]
    by (simp add: rejected_def vR[unfolded filter.simps] rej) (simp add: evals matchesPattern_def rej)
  have zero: "newEvents mounted (handleFileSelect browser ?Z [png ''a.png'' 100] mounted)
      = [CreateObjectURL (png ''a.png'' 100) ''blob:0'',
         OnImagesChange
           [\<lparr>img_id = ''id-0'', img_file = png ''a.png'' 100, preview = ''blob:0''\<rparr>]]"
    using handleFileSelect_ceiling[where N = 0 and s = mounted and e = browser,
        OF enZ sinkZ vZ[symmetric] refl] ceilZ
    by (simp add: evals rejected_def)
  have room: "newEvents mounted (handleFileSelect browser homeProps [png ''a.png'' 100] mounted)
      = [CreateObjectURL (png ''a.png'' 100) ''blob:0'',
         OnImagesChange
           [\<lparr>img_id = ''id-0'', img_file = png ''a.png'' 100, preview = ''blob:0''\<rparr>]]"
    using handleFileSelect_ceiling[where N = 10 and s = mounted and e = browser,
        OF enH sinkH vH[symmetric] refl] ceilH
    by (simp add: evals rejected_def)
  show ?thesis
    using enP sinkP vP kept full vR none ceilZ zero ceilH room by simp
qed

theorem handleFileSelect_ceiling_counterexample:
  "maxFiles (homeProps\<lparr>images := [image ''x'' ''blob:x''], maxFiles := Some 1\<rparr>) = Some 1
   \<and> length (images (homeProps\<lparr>images := [image ''x'' ''blob:x''], maxFiles := Some 1\<rparr>)) = 1
   \<and> filter (hasCode MAX_FILES_EXCEEDED)
        (newEvents mounted
           (handleFileSelect browser
              (homeProps\<lparr>images := [image ''x'' ''blob:x''], maxFiles := Some 1\<rparr>)
              [pdf ''a.pdf'' 100] mounted))
      = []
   \<and> maxFiles (homeProps\<lparr>maxFiles := Some 0\<rparr>) = Some 0
   \<and> length (images (homeProps\<lparr>maxFiles := Some 0\<rparr>)) = 0
   \<and> newEvents mounted
        (handleFileSelect browser (homeProps\<lparr>maxFiles := Some 0\<rparr>) [png ''a.png'' 100] mounted)
      = [CreateObjectURL (png ''a.png'' 100) ''blob:0'',
         OnImagesChange
           [\<lparr>img_id = ''id-0'', img_file = png ''a.png'' 100, preview = ''blob:0''\<rparr>]]"
  by (simp add: handleFileSelect_def validateFile_def invalidTypeError_def matchesPattern_def
      callOnError_def callOnImagesChange_def emit_def newEvents_def createObjectURL_def
      generateId_def Let_def evals)

subsection \<open>Releasing a preview handle\<close>

text \<open>
  C7. \<^verbatim>\<open>revokeObjectURL\<close> of the hook on a URL that the hook does not track returns
  normally and leaves the state as it is: no \<^verbatim>\<open>URL.revokeObjectURL\<close> is attempted.
  A URL that was just released is not tracked any more, so releasing it again is such a
  no-op. Neither \<^verbatim>\<open>revokeObjectURL\<close> nor \<^verbatim>\<open>safeRevokeObjectURL\<close> ever throws:
  when the browser's \<^verbatim>\<open>URL.revokeObjectURL\<close> throws, the error is caught, logged
  with \<^verbatim>\<open>console.warn\<close> and handed to the error callback if there is one (a
  callback that returns normally); when it does not throw, the call is all that happens.
\<close>

theorem revokeObjectURL_never_throws:
  "(url \<notin> generatedUrls s \<longrightarrow> revokeObjectURL e url sink s = (Returns (), s))
   \<and> revokeObjectURL e url sink' (snd (revokeObjectURL e url sink s))
       = (Returns (), snd (revokeObjectURL e url sink s))
   \<and> fst (revokeObjectURL e url sink s) = Returns ()
   \<and> fst (safeRevokeObjectURL e url sink s) = Returns ()
   \<and> (revokeThrows e url = None \<longrightarrow>
        snd (safeRevokeObjectURL e url sink s) = emit (RevokeObjectURL url) s)
   \<and> (\<forall>err. revokeThrows e url = Some err \<longrightarrow>
        snd (safeRevokeObjectURL e url sink s)
          = (case sink of None \<Rightarrow> (\<lambda>s. s) | Some callback \<Rightarrow> callback err)
              (emit (ConsoleWarn ''Failed to revoke object URL:'' err)
                 (emit (RevokeObjectURL url) s)))"
proof (intro conjI)
  show "url \<notin> generatedUrls s \<longrightarrow> revokeObjectURL e url sink s = (Returns (), s)"
    by (simp add: revokeObjectURL_untracked)
  show "revokeObjectURL e url sink' (snd (revokeObjectURL e url sink s))
       = (Returns (), snd (revokeObjectURL e url sink s))"
    by (rule revokeObjectURL_untracked) (rule revokeObjectURL_forgets)
  show "fst (revokeObjectURL e url sink s) = Returns ()"
    by (rule revokeObjectURL_returns)
  show "fst (safeRevokeObjectURL e url sink s) = Returns ()"
    by (rule safeRevokeObjectURL_returns)
  show "revokeThrows e url = None \<longrightarrow>
        snd (safeRevokeObjectURL e url sink s) = emit (RevokeObjectURL url) s"
    by (simp add: safeRevokeObjectURL_def URL_revokeObjectURL_def)
  show "\<forall>err. revokeThrows e url = Some err \<longrightarrow>
        snd (safeRevokeObjectURL e url sink s)
          = (case sink of None \<Rightarrow> (\<lambda>s. s) | Some callback \<Rightarrow> callback err)
              (emit (ConsoleWarn ''Failed to revoke object URL:'' err)
                 (emit (RevokeObjectURL url) s))"
    by (simp add: safeRevokeObjectURL_def URL_revokeObjectURL_def Let_def split: option.splits)
qed

theorem revokeObjectURL_never_throws_witness:
  "''blob:9'' \<notin> generatedUrls (mounted\<lparr>generatedUrls := {''blob:0''}\<rparr>)
   \<and> revokeThrows failingBrowser ''blob:0'' = Some (JsError ''revoke'')
   \<and> revokeThrows browser ''blob:0'' = None
   \<and> revokeObjectURL failingBrowser ''blob:9'' (Some (\<lambda>err. emit (OnError cleanupFailed)))
        (mounted\<lparr>generatedUrls := {''blob:0''}\<rparr>)
      = (Returns (), mounted\<lparr>generatedUrls := {''blob:0''}\<rparr>)
   \<and> fst (revokeObjectURL failingBrowser ''blob:0'' (Some (\<lambda>err. emit (OnError cleanupFailed)))
        (mounted\<lparr>generatedUrls := {''blob:0''}\<rparr>)) = Returns ()
   \<and> trace (snd (safeRevokeObjectURL failingBrowser ''blob:0''
        (Some (\<lambda>err. emit (OnError cleanupFailed)))
        (mounted\<lparr>generatedUrls := {''blob:0''}\<rparr>)))
      = [RevokeObjectURL ''blob:0'',
         ConsoleWarn ''Failed to revoke object URL:'' (JsError ''revoke''),
         OnError cleanupFailed]
   \<and> trace (snd (safeRevokeObjectURL browser ''blob:0''
        (Some (\<lambda>err. emit (OnError cleanupFailed)))
        (mounted\<lparr>generatedUrls := {''blob:0''}\<rparr>)))
      = [RevokeObjectURL ''blob:0'']"
proof -
  let ?s = "mounted\<lparr>generatedUrls := {''blob:0''}\<rparr>"
  let ?sink = "Some (\<lambda>err. emit (OnError cleanupFailed))"
  have h1: "''blob:9'' \<notin> generatedUrls ?s"
    by (simp add: mounted_def)
  have h2: "revokeThrows failingBrowser ''blob:0'' = Some (JsError ''revoke'')"
    by (simp add: failingBrowser_def browser_def)
  have h3: "revokeThrows browser ''blob:0'' = None"
    by (simp add: browser_def)
  show ?thesis
    using revokeObjectURL_never_throws[of "''blob:9''" ?s failingBrowser ?sink ?sink]
      revokeObjectURL_never_throws[of "''blob:0''" ?s failingBrowser ?sink ?sink]
      revokeObjectURL_never_throws[of "''blob:0''" ?s browser ?sink ?sink]
      h1 h2 h3
    by (simp add: emit_def mounted_def)
qed

subsection \<open>Remove\<close>

text \<open>
  C3, as the code has it. When the id names one item of the sequence (the item \<open>x\<close>
  between \<open>xs\<close> and \<open>ys\<close>, no other item bearing the id), \<^verbatim>\<open>handleDelete\<close>
  returns normally and hands \<^verbatim>\<open>onImagesChange\<close> the sequence without that item, the
  others in their order. The item's preview URL is revoked exactly once if the hook tracks
  it (it created the URL and has not released it), and then it is tracked no more; a URL
  that the hook does not track is not revoked at all. When no item bears the id, the
  sequence handed to \<^verbatim>\<open>onImagesChange\<close> is the current one and nothing is revoked.
\<close>

theorem handleDelete_removes:
  "(images p = xs @ x # ys \<and> img_id x = ident \<and> ident \<notin> img_id ` set (xs @ ys) \<longrightarrow>
      fst (handleDelete e p ident s) = Returns ()
    \<and> newEvents s (snd (handleDelete e p ident s))
        = (if preview x \<in> generatedUrls s
           then RevokeObjectURL (preview x) # revokeFailure e p (preview x) else [])
          @ [OnImagesChange (xs @ ys)]
    \<and> filter isRevoke (newEvents s (snd (handleDelete e p ident s)))
        = (if preview x \<in> generatedUrls s then [RevokeObjectURL (preview x)] else [])
    \<and> generatedUrls (snd (handleDelete e p ident s)) = generatedUrls s - {preview x}
    \<and> owner (images p) (newEvents s (snd (handleDelete e p ident s))) = xs @ ys)
   \<and> (ident \<notin> img_id ` set (images p) \<longrightarrow>
      fst (handleDelete e p ident s) = Returns ()
    \<and> newEvents s (snd (handleDelete e p ident s)) = [OnImagesChange (images p)]
    \<and> filter isRevoke (newEvents s (snd (handleDelete e p ident s))) = []
    \<and> generatedUrls (snd (handleDelete e p ident s)) = generatedUrls s
    \<and> owner (images p) (newEvents s (snd (handleDelete e p ident s))) = images p)"
proof (intro conjI impI)
  assume a: "images p = xs @ x # ys \<and> img_id x = ident \<and> ident \<notin> img_id ` set (xs @ ys)"
  then have found: "find (\<lambda>img. img_id img = ident) (images p) = Some x"
    using find_unique[of x ident xs ys] by (simp add: image_Un)
  from a have rest: "filter (\<lambda>img. img_id img \<noteq> ident) (images p) = xs @ ys"
    using filter_unique[of x ident xs ys] by (simp add: image_Un)
  note hd = handleDelete_found[OF found, of e s, unfolded rest]
  have ev: "newEvents s (snd (handleDelete e p ident s))
        = (if preview x \<in> generatedUrls s
           then RevokeObjectURL (preview x) # revokeFailure e p (preview x) else [])
          @ [OnImagesChange (xs @ ys)]"
    by (rule newEvents_append) (simp add: hd)
  show "fst (handleDelete e p ident s) = Returns ()"
    by (simp add: hd)
  show "newEvents s (snd (handleDelete e p ident s))
        = (if preview x \<in> generatedUrls s
           then RevokeObjectURL (preview x) # revokeFailure e p (preview x) else [])
          @ [OnImagesChange (xs @ ys)]"
    by (rule ev)
  show "filter isRevoke (newEvents s (snd (handleDelete e p ident s)))
        = (if preview x \<in> generatedUrls s then [RevokeObjectURL (preview x)] else [])"
    unfolding ev by (simp add: filter_isRevoke_failure)
  show "generatedUrls (snd (handleDelete e p ident s)) = generatedUrls s - {preview x}"
    by (simp add: hd)
  show "owner (images p) (newEvents s (snd (handleDelete e p ident s))) = xs @ ys"
    unfolding ev by (rule owner_last_change)
next
  assume a: "ident \<notin> img_id ` set (images p)"
  then have none: "find (\<lambda>img. img_id img = ident) (images p) = None"
    by (rule find_absent)
  from a have rest: "filter (\<lambda>img. img_id img \<noteq> ident) (images p) = images p"
    by (rule filter_absent)
  note hd = handleDelete_absent[OF none, of e s, unfolded rest]
  have ev: "newEvents s (snd (handleDelete e p ident s)) = [OnImagesChange (images p)]"
    by (rule newEvents_append) (simp add: hd)
  show "fst (handleDelete e p ident s) = Returns ()"
    by (simp add: hd)
  show "newEvents s (snd (handleDelete e p ident s)) = [OnImagesChange (images p)]"
    by (rule ev)
  show "filter isRevoke (newEvents s (snd (handleDelete e p ident s))) = []"
    unfolding ev by simp
  show "generatedUrls (snd (handleDelete e p ident s)) = generatedUrls s"
    by (simp add: hd)
  show "owner (images p) (newEvents s (snd (handleDelete e p ident s))) = images p"
    unfolding ev by simp
qed

theorem handleDelete_removes_witness:
  "img_id (image ''b'' ''blob:1'') = ''b''
   \<and> ''b'' \<notin> img_id ` set ([image ''a'' ''blob:0''] @ [image ''c'' ''blob:2''])
   \<and> ''z'' \<notin> img_id ` set [image ''a'' ''blob:0'', image ''b'' ''blob:1'', image ''c'' ''blob:2'']
   \<and> newEvents (mounted\<lparr>generatedUrls := {''blob:0'', ''blob:1'', ''blob:2''}\<rparr>)
        (snd (handleDelete browser
           (homeProps\<lparr>images :=
              [image ''a'' ''blob:0'', image ''b'' ''blob:1'', image ''c'' ''blob:2'']\<rparr>)
           ''b'' (mounted\<lparr>generatedUrls := {''blob:0'', ''blob:1'', ''blob:2''}\<rparr>)))
      = [RevokeObjectURL ''blob:1'',
         OnImagesChange [image ''a'' ''blob:0'', image ''c'' ''blob:2'']]
   \<and> generatedUrls
        (snd (handleDelete browser
           (homeProps\<lparr>images :=
              [image ''a'' ''blob:0'', image ''b'' ''blob:1'', image ''c'' ''blob:2'']\<rparr>)
           ''b'' (mounted\<lparr>generatedUrls := {''blob:0'', ''blob:1'', ''blob:2''}\<rparr>)))
      = {''blob:0'', ''blob:2''}
   \<and> filter isRevoke
        (newEvents (mounted\<lparr>generatedUrls := {''blob:0'', ''blob:1'', ''blob:2''}\<rparr>)
          (snd (handleDelete browser
             (homeProps\<lparr>images :=
                [image ''a'' ''blob:0'', image ''b'' ''blob:1'', image ''c'' ''blob:2'']\<rparr>)
             ''z'' (mounted\<lparr>generatedUrls := {''blob:0'', ''blob:1'', ''blob:2''}\<rparr>))))
      = []
   \<and> owner [image ''a'' ''blob:0'', image ''b'' ''blob:1'', image ''c'' ''blob:2'']
        (newEvents (mounted\<lparr>generatedUrls := {''blob:0'', ''blob:1'', ''blob:2''}\<rparr>)
          (snd (handleDelete browser
             (homeProps\<lparr>images :=
                [image ''a'' ''blob:0'', image ''b'' ''blob:1'', image ''c'' ''blob:2'']\<rparr>)
             ''z'' (mounted\<lparr>generatedUrls := {''blob:0'', ''blob:1'', ''blob:2''}\<rparr>))))
      = [image ''a'' ''blob:0'', image ''b'' ''blob:1'', image ''c'' ''blob:2'']"
proof -
  let ?imgs = "[image ''a'' ''blob:0'', image ''b'' ''blob:1'', image ''c'' ''blob:2'']"
  let ?p = "homeProps\<lparr>images := ?imgs\<rparr>"
  let ?s = "mounted\<lparr>generatedUrls := {''blob:0'', ''blob:1'', ''blob:2''}\<rparr>"
  have h1: "images ?p = [image ''a'' ''blob:0''] @ image ''b'' ''blob:1'' # [image ''c'' ''blob:2'']"
    by (simp add: homeProps_def)
  have h2: "img_id (image ''b'' ''blob:1'') = ''b''"
    by (simp add: image_def)
  have h3: "''b'' \<notin> img_id ` set ([image ''a'' ''blob:0''] @ [image ''c'' ''blob:2''])"
    by (simp add: image_def)
  have h4: "''z'' \<notin> img_id ` set (images ?p)"
    by (simp add: homeProps_def image_def)
  have tracked: "preview (image ''b'' ''blob:1'') \<in> generatedUrls ?s"
    by (simp add: image_def mounted_def)
  have quiet: "revokeFailure browser ?p (preview (image ''b'' ''blob:1'')) = []"
    by (simp add: revokeFailure_def browser_def)
  have gone: "generatedUrls ?s - {preview (image ''b'' ''blob:1'')} = {''blob:0'', ''blob:2''}"
    by (auto simp: image_def mounted_def)
  have imgs: "images ?p = ?imgs"
    by (simp add: homeProps_def)
  have same: "generatedUrls ?s = {''blob:0'', ''blob:1'', ''blob:2''}"
    by (simp add: mounted_def)
  from handleDelete_removes[of ?p "[image ''a'' ''blob:0'']" "image ''b'' ''blob:1''"
      "[image ''c'' ''blob:2'']" "''b''" browser ?s] h1 h2 h3 tracked
  have A: "newEvents ?s (snd (handleDelete browser ?p ''b'' ?s))
        = [RevokeObjectURL ''blob:1'', OnImagesChange [image ''a'' ''blob:0'', image ''c'' ''blob:2'']]
      \<and> generatedUrls (snd (handleDelete browser ?p ''b'' ?s)) = {''blob:0'', ''blob:2''}"
    by (simp only: quiet gone) (simp add: image_def)
  from handleDelete_removes[of ?p "[]" "image ''b'' ''blob:1''" "[]" "''z''" browser ?s] h4
  have B: "filter isRevoke (newEvents ?s (snd (handleDelete browser ?p ''z'' ?s))) = []
      \<and> owner (images ?p) (newEvents ?s (snd (handleDelete browser ?p ''z'' ?s))) = images ?p"
    by blast
  show ?thesis
    using A B h2 h3 h4 unfolding imgs by blast
qed

theorem handleDelete_removes_counterexample:
  "find (\<lambda>img. img_id img = ''b'')
      (images (homeProps\<lparr>images := [image ''a'' ''blob:0'', image ''b'' ''blob:1'']\<rparr>))
     = Some (image ''b'' ''blob:1'')
   \<and> newEvents mounted
        (snd (handleDelete browser
           (homeProps\<lparr>images := [image ''a'' ''blob:0'', image ''b'' ''blob:1'']\<rparr>)
           ''b'' mounted))
      = [OnImagesChange [image ''a'' ''blob:0'']]
   \<and> filter isRevoke
        (newEvents mounted
          (snd (handleDelete browser
             (homeProps\<lparr>images := [image ''a'' ''blob:0'', image ''b'' ''blob:1'']\<rparr>)
             ''b'' mounted)))
      = []"
  by (simp add: handleDelete_def revokeObjectURL_def callOnImagesChange_def emit_def
      newEvents_def homeProps_def image_def mounted_def)

subsection \<open>Add, then Remove\<close>

text \<open>
  C4. The component is not disabled, the file is accepted, there is room for it, and the
  id that \<^verbatim>\<open>generateId\<close> returns is not the id of an item already in the sequence
  (the uniqueness that the generator is trusted for). \<^verbatim>\<open>handleFileSelect\<close> on the
  file hands the owner the sequence with the new item at the end; \<^verbatim>\<open>handleDelete\<close>
  of the new item's id on that sequence returns normally and hands the owner the
  sequence from before. Over both operations \<^verbatim>\<open>URL.createObjectURL\<close> is called
  exactly once, on the file, and \<^verbatim>\<open>URL.revokeObjectURL\<close> exactly once, on the URL
  that call returned.
\<close>

theorem add_then_remove:
  assumes en: "\<not> disabled p" and acc: "accepts p f"
    and room: "remainingSlots p = Infinity \<or> (\<exists>r. remainingSlots p = Finite r \<and> 0 < r)"
    and fresh: "randomId e (idCalls s) \<notin> img_id ` set (images p)"
    and item: "item = \<lparr>img_id = randomId e (idCalls s), img_file = f,
                        preview = objectUrl e (urlCalls s)\<rparr>"
    and s1: "s1 = handleFileSelect e p [f] s"
    and s2: "s2 = snd (handleDelete e (p\<lparr>images := images p @ [item]\<rparr>) (img_id item) s1)"
  shows "owner (images p) (newEvents s s1) = images p @ [item]
       \<and> fst (handleDelete e (p\<lparr>images := images p @ [item]\<rparr>) (img_id item) s1) = Returns ()
       \<and> owner (images p @ [item]) (newEvents s1 s2) = images p
       \<and> newEvents s s2
           = [CreateObjectURL f (preview item), OnImagesChange (images p @ [item]),
              RevokeObjectURL (preview item)]
             @ revokeFailure e p (preview item) @ [OnImagesChange (images p)]
       \<and> filter isAcquire (newEvents s s2) = [CreateObjectURL f (preview item)]
       \<and> filter isRevoke (newEvents s s2) = [RevokeObjectURL (preview item)]"
proof -
  let ?p' = "p\<lparr>images := images p @ [item]\<rparr>"
  have st1: "s1 = s\<lparr>generatedUrls := insert (preview item) (generatedUrls s),
         urlCalls := Suc (urlCalls s), idCalls := Suc (idCalls s),
         trace := trace s @ [CreateObjectURL f (preview item), OnImagesChange (images p @ [item])]\<rparr>"
    unfolding s1 item by (simp add: handleFileSelect_single[OF en acc room])
  have ev1: "newEvents s s1 = [CreateObjectURL f (preview item), OnImagesChange (images p @ [item])]"
    by (rule newEvents_append) (simp add: st1)
  have idi: "img_id item = randomId e (idCalls s)"
    by (simp add: item)
  have found: "find (\<lambda>img. img_id img = img_id item) (images ?p') = Some item"
    using find_unique[of item "img_id item" "images p" "[]"] fresh by (simp add: idi)
  have rest: "filter (\<lambda>img. img_id img \<noteq> img_id item) (images ?p') = images p"
    using filter_unique[of item "img_id item" "images p" "[]"] fresh by (simp add: idi)
  have tracked: "preview item \<in> generatedUrls s1"
    by (simp add: st1)
  note del = handleDelete_found[OF found, of e s1, unfolded rest revokeFailure_images]
  have tr2: "trace s2 = trace s1 @ RevokeObjectURL (preview item) # revokeFailure e p (preview item)
      @ [OnImagesChange (images p)]"
    unfolding s2 using tracked by (simp add: del)
  have ev2: "newEvents s1 s2 = RevokeObjectURL (preview item) # revokeFailure e p (preview item)
      @ [OnImagesChange (images p)]"
    by (rule newEvents_append) (simp add: tr2)
  have ev: "newEvents s s2
      = [CreateObjectURL f (preview item), OnImagesChange (images p @ [item]),
         RevokeObjectURL (preview item)]
        @ revokeFailure e p (preview item) @ [OnImagesChange (images p)]"
    by (rule newEvents_append) (simp add: tr2 st1)
  have c1: "owner (images p) (newEvents s s1) = images p @ [item]"
    unfolding ev1 by simp
  have c2: "fst (handleDelete e ?p' (img_id item) s1) = Returns ()"
    by (simp add: del)
  have c3: "owner (images p @ [item]) (newEvents s1 s2) = images p"
    unfolding ev2
    using owner_last_change[of "images p @ [item]"
        "RevokeObjectURL (preview item) # revokeFailure e p (preview item)" "images p"]
    by simp
  have noacq: "filter isAcquire (revokeFailure e p (preview item)) = []"
    by (simp add: revokeFailure_def reports_def split: option.splits)
  have c5: "filter isAcquire (newEvents s s2) = [CreateObjectURL f (preview item)]"
    unfolding ev by (simp add: noacq)
  have c6: "filter isRevoke (newEvents s s2) = [RevokeObjectURL (preview item)]"
    unfolding ev by (simp add: filter_isRevoke_failure)
  show ?thesis
    using c1 c2 c3 ev c5 c6 by blast
qed

theorem add_then_remove_witness:
  "\<not> disabled homeProps \<and> accepts homeProps (png ''a.png'' 100)
   \<and> remainingSlots homeProps = Finite 10
   \<and> randomId browser (idCalls mounted) \<notin> img_id ` set (images homeProps)
   \<and> newEvents mounted
        (snd (handleDelete browser
           (homeProps\<lparr>images := images homeProps
              @ [\<lparr>img_id = ''id-0'', img_file = png ''a.png'' 100, preview = ''blob:0''\<rparr>]\<rparr>)
           ''id-0''
           (handleFileSelect browser homeProps [png ''a.png'' 100] mounted)))
      = [CreateObjectURL (png ''a.png'' 100) ''blob:0'',
         OnImagesChange
           [\<lparr>img_id = ''id-0'', img_file = png ''a.png'' 100, preview = ''blob:0''\<rparr>],
         RevokeObjectURL ''blob:0'',
         OnImagesChange []]"
proof -
  let ?item = "\<lparr>img_id = ''id-0'', img_file = png ''a.png'' 100, preview = ''blob:0''\<rparr>"
  have h1: "\<not> disabled homeProps"
    by (simp add: homeProps_def)
  have h2: "accepts homeProps (png ''a.png'' 100)"
    by (simp add: evals)
  have h3: "remainingSlots homeProps = Finite 10"
    by (simp add: evals)
  have h3': "remainingSlots homeProps = Infinity
      \<or> (\<exists>r. remainingSlots homeProps = Finite r \<and> 0 < r)"
    by (simp add: h3)
  have h4: "randomId browser (idCalls mounted) \<notin> img_id ` set (images homeProps)"
    by (simp add: homeProps_def)
  have h5: "?item = \<lparr>img_id = randomId browser (idCalls mounted), img_file = png ''a.png'' 100,
                      preview = objectUrl browser (urlCalls mounted)\<rparr>"
    by (simp add: browser_def mounted_def showNat.simps)
  have quiet: "revokeFailure browser homeProps ''blob:0'' = []"
    by (simp add: revokeFailure_def browser_def)
  have imgs: "images homeProps = []"
    by (simp add: homeProps_def)
  show ?thesis
    using add_then_remove[OF h1 h2 h3' h4 h5 refl refl] h1 h2 h3 h4
    by (simp add: quiet imgs)
qed

subsection \<open>Move\<close>

text \<open>
  C8. When the drop has a target, the two ids differ and each is the id of an item of the
  sequence, \<^verbatim>\<open>handleDragEnd\<close> hands \<^verbatim>\<open>onImagesChange\<close> one sequence: a
  permutation of the current one (the same items, so the same ids), in which the source
  item stands at the position the target had, and the other items keep their order. In every
  other case (no target, the same id twice, an id that no item bears) it does nothing: the
  state, and so the sequence, is as before.
\<close>

theorem handleDragEnd_moves:
  "(over event = Some target \<and> active event \<noteq> target
      \<and> active event \<in> img_id ` set (images p) \<and> target \<in> img_id ` set (images p) \<longrightarrow>
      (\<exists>moved i j.
          newEvents s (handleDragEnd p event s) = [OnImagesChange moved]
        \<and> i < length (images p) \<and> j < length (images p) \<and> i \<noteq> j
        \<and> img_id (images p ! i) = active event \<and> img_id (images p ! j) = target
        \<and> mset moved = mset (images p)
        \<and> set (map img_id moved) = set (map img_id (images p))
        \<and> moved ! j = images p ! i
        \<and> take j moved @ drop (Suc j) moved = take i (images p) @ drop (Suc i) (images p)))
   \<and> (\<not> (\<exists>target. over event = Some target \<and> active event \<noteq> target
             \<and> active event \<in> img_id ` set (images p) \<and> target \<in> img_id ` set (images p)) \<longrightarrow>
      handleDragEnd p event s = s)"
proof (intro conjI impI)
  assume "over event = Some target \<and> active event \<noteq> target
      \<and> active event \<in> img_id ` set (images p) \<and> target \<in> img_id ` set (images p)"
  then show "\<exists>moved i j.
          newEvents s (handleDragEnd p event s) = [OnImagesChange moved]
        \<and> i < length (images p) \<and> j < length (images p) \<and> i \<noteq> j
        \<and> img_id (images p ! i) = active event \<and> img_id (images p ! j) = target
        \<and> mset moved = mset (images p)
        \<and> set (map img_id moved) = set (map img_id (images p))
        \<and> moved ! j = images p ! i
        \<and> take j moved @ drop (Suc j) moved = take i (images p) @ drop (Suc i) (images p)"
    by (intro handleDragEnd_relocates) simp_all
next
  assume "\<not> (\<exists>target. over event = Some target \<and> active event \<noteq> target
             \<and> active event \<in> img_id ` set (images p) \<and> target \<in> img_id ` set (images p))"
  then show "handleDragEnd p event s = s"
    by (rule handleDragEnd_ignores)
qed

theorem handleDragEnd_moves_witness:
  "over \<lparr>active = ''a'', over = Some ''c''\<rparr> = Some ''c''
   \<and> ''a'' \<in> img_id ` set [image ''a'' ''blob:0'', image ''b'' ''blob:1'', image ''c'' ''blob:2'']
   \<and> ''c'' \<in> img_id ` set [image ''a'' ''blob:0'', image ''b'' ''blob:1'', image ''c'' ''blob:2'']
   \<and> newEvents mounted
        (handleDragEnd
           (homeProps\<lparr>images :=
              [image ''a'' ''blob:0'', image ''b'' ''blob:1'', image ''c'' ''blob:2'']\<rparr>)
           \<lparr>active = ''a'', over = Some ''c''\<rparr> mounted)
      = [OnImagesChange [image ''b'' ''blob:1'', image ''c'' ''blob:2'', image ''a'' ''blob:0'']]
   \<and> handleDragEnd
        (homeProps\<lparr>images :=
           [image ''a'' ''blob:0'', image ''b'' ''blob:1'', image ''c'' ''blob:2'']\<rparr>)
        \<lparr>active = ''a'', over = Some ''z''\<rparr> mounted
      = mounted"
proof -
  let ?imgs = "[image ''a'' ''blob:0'', image ''b'' ''blob:1'', image ''c'' ''blob:2'']"
  let ?p = "homeProps\<lparr>images := ?imgs\<rparr>"
  have imgs: "images ?p = ?imgs"
    by (simp add: homeProps_def)
  have h1: "''a'' \<in> img_id ` set ?imgs" and h2: "''c'' \<in> img_id ` set ?imgs"
    and h3: "''z'' \<notin> img_id ` set ?imgs"
    by (simp_all add: image_def)
  have moved: "newEvents mounted (handleDragEnd ?p \<lparr>active = ''a'', over = Some ''c''\<rparr> mounted)
      = [OnImagesChange [image ''b'' ''blob:1'', image ''c'' ''blob:2'', image ''a'' ''blob:0'']]"
  proof -
    from handleDragEnd_moves[of "\<lparr>active = ''a'', over = Some ''c''\<rparr>" "''c''" ?p mounted]
      h1 h2
    obtain moved where
      ev: "newEvents mounted (handleDragEnd ?p \<lparr>active = ''a'', over = Some ''c''\<rparr> mounted)
            = [OnImagesChange moved]"
      by (auto simp: imgs)
    then have "[OnImagesChange moved]
        = [OnImagesChange [image ''b'' ''blob:1'', image ''c'' ''blob:2'', image ''a'' ''blob:0'']]"
      by (simp add: newEvents_def handleDragEnd_def arrayMove_def callOnImagesChange_def emit_def
          homeProps_def image_def mounted_def Let_def)
    with ev show ?thesis by simp
  qed
  have ignored: "handleDragEnd ?p \<lparr>active = ''a'', over = Some ''z''\<rparr> mounted = mounted"
    using handleDragEnd_moves[of "\<lparr>active = ''a'', over = Some ''z''\<rparr>" "''z''" ?p mounted] h3
    by (auto simp: imgs)
  show ?thesis
    using moved ignored h1 h2 by simp
qed

subsection \<open>The calls of onImagesChange\<close>

text \<open>
  C9, as the code has it. Every call of \<^verbatim>\<open>onImagesChange\<close> passes the whole new
  sequence, and the owner's sequence after an operation is the one passed.
  \<^verbatim>\<open>handleFileSelect\<close> calls it exactly once when the component is enabled, the batch
  holds an accepted file and at least one slot remains: with the current sequence
  followed by the new images of the kept files, a sequence that differs from the current
  one. When the component is disabled, no file is accepted or no slot remains, it does
  not call it and the sequence stays. \<^verbatim>\<open>handleDragEnd\<close> calls it exactly once when
  the two ids differ and each is borne by an item: with a permutation that differs from
  the current sequence; in every other case it leaves the state alone.
  \<^verbatim>\<open>handleDelete\<close> calls it exactly once in every case, with the current sequence
  filtered by the id: a different sequence when an item bears the id, the same sequence
  when none does.
\<close>

theorem onImagesChange_calls:
  "(\<not> disabled p \<and> filter (accepts p) files \<noteq> []
      \<and> (remainingSlots p = Infinity \<or> (\<exists>r. remainingSlots p = Finite r \<and> 0 < r)) \<longrightarrow>
        filter isChange (newEvents s (handleFileSelect e p files s))
          = [OnImagesChange
               (images p @ freshImages e s (keptFiles p (filter (accepts p) files)))]
      \<and> keptFiles p (filter (accepts p) files) \<noteq> []
      \<and> images p @ freshImages e s (keptFiles p (filter (accepts p) files)) \<noteq> images p
      \<and> owner (images p) (newEvents s (handleFileSelect e p files s))
          = images p @ freshImages e s (keptFiles p (filter (accepts p) files)))
   \<and> (disabled p \<or> filter (accepts p) files = []
      \<or> (\<exists>r. remainingSlots p = Finite r \<and> r \<le> 0) \<longrightarrow>
        filter isChange (newEvents s (handleFileSelect e p files s)) = []
      \<and> owner (images p) (newEvents s (handleFileSelect e p files s)) = images p)
   \<and> ((\<exists>target. over event = Some target \<and> active event \<noteq> target
          \<and> active event \<in> img_id ` set (images p) \<and> target \<in> img_id ` set (images p)) \<longrightarrow>
        (\<exists>moved. moved \<noteq> images p \<and> mset moved = mset (images p)
           \<and> newEvents s (handleDragEnd p event s) = [OnImagesChange moved]))
   \<and> (\<not> (\<exists>target. over event = Some target \<and> active event \<noteq> target
             \<and> active event \<in> img_id ` set (images p) \<and> target \<in> img_id ` set (images p)) \<longrightarrow>
        handleDragEnd p event s = s)
   \<and> filter isChange (newEvents s (snd (handleDelete e p ident s)))
       = [OnImagesChange (filter (\<lambda>img. img_id img \<noteq> ident) (images p))]
   \<and> owner (images p) (newEvents s (snd (handleDelete e p ident s)))
       = filter (\<lambda>img. img_id img \<noteq> ident) (images p)
   \<and> (ident \<in> img_id ` set (images p) \<longrightarrow>
        filter (\<lambda>img. img_id img \<noteq> ident) (images p) \<noteq> images p)
   \<and> (ident \<notin> img_id ` set (images p) \<longrightarrow>
        filter (\<lambda>img. img_id img \<noteq> ident) (images p) = images p)"
proof -
  have add: "\<not> disabled p \<and> filter (accepts p) files \<noteq> []
      \<and> (remainingSlots p = Infinity \<or> (\<exists>r. remainingSlots p = Finite r \<and> 0 < r)) \<longrightarrow>
        filter isChange (newEvents s (handleFileSelect e p files s))
          = [OnImagesChange
               (images p @ freshImages e s (keptFiles p (filter (accepts p) files)))]
      \<and> keptFiles p (filter (accepts p) files) \<noteq> []
      \<and> images p @ freshImages e s (keptFiles p (filter (accepts p) files)) \<noteq> images p
      \<and> owner (images p) (newEvents s (handleFileSelect e p files s))
          = images p @ freshImages e s (keptFiles p (filter (accepts p) files))"
    using hfs_changes_sequence[of p files s e] by blast
  have noadd: "disabled p \<or> filter (accepts p) files = []
      \<or> (\<exists>r. remainingSlots p = Finite r \<and> r \<le> 0) \<longrightarrow>
        filter isChange (newEvents s (handleFileSelect e p files s)) = []
      \<and> owner (images p) (newEvents s (handleFileSelect e p files s)) = images p"
    using hfs_keeps_sequence[of p files s e] by blast
  have move: "(\<exists>target. over event = Some target \<and> active event \<noteq> target
          \<and> active event \<in> img_id ` set (images p) \<and> target \<in> img_id ` set (images p)) \<longrightarrow>
        (\<exists>moved. moved \<noteq> images p \<and> mset moved = mset (images p)
           \<and> newEvents s (handleDragEnd p event s) = [OnImagesChange moved])"
    using handleDragEnd_effective[of event _ p s] by blast
  have nomove: "\<not> (\<exists>target. over event = Some target \<and> active event \<noteq> target
             \<and> active event \<in> img_id ` set (images p) \<and> target \<in> img_id ` set (images p)) \<longrightarrow>
        handleDragEnd p event s = s"
    using handleDragEnd_ignores[of event p s] by blast
  have present: "ident \<in> img_id ` set (images p) \<longrightarrow>
        filter (\<lambda>img. img_id img \<noteq> ident) (images p) \<noteq> images p"
    using filter_changed[of ident "images p"] by blast
  have absent: "ident \<notin> img_id ` set (images p) \<longrightarrow>
        filter (\<lambda>img. img_id img \<noteq> ident) (images p) = images p"
    using filter_absent[of ident "images p"] by blast
  show ?thesis
    using add noadd move nomove handleDelete_changes[of s e p ident]
      handleDelete_owner[of p s e ident] present absent
    by (intro conjI)
qed

theorem onImagesChange_calls_witness:
  "\<not> disabled homeProps \<and> filter (accepts homeProps) [png ''a.png'' 100] = [png ''a.png'' 100]
   \<and> remainingSlots homeProps = Finite 10
   \<and> filter isChange
        (newEvents mounted (handleFileSelect browser homeProps [png ''a.png'' 100] mounted))
      = [OnImagesChange
           [\<lparr>img_id = ''id-0'', img_file = png ''a.png'' 100, preview = ''blob:0''\<rparr>]]
   \<and> filter (accepts homeProps) [pdf ''a.pdf'' 100] = []
   \<and> filter isChange
        (newEvents mounted (handleFileSelect browser homeProps [pdf ''a.pdf'' 100] mounted))
      = []
   \<and> newEvents mounted
        (handleDragEnd
           (homeProps\<lparr>images :=
              [image ''a'' ''blob:0'', image ''b'' ''blob:1'', image ''c'' ''blob:2'']\<rparr>)
           \<lparr>active = ''a'', over = Some ''c''\<rparr> mounted)
      = [OnImagesChange [image ''b'' ''blob:1'', image ''c'' ''blob:2'', image ''a'' ''blob:0'']]
   \<and> handleDragEnd
        (homeProps\<lparr>images :=
           [image ''a'' ''blob:0'', image ''b'' ''blob:1'', image ''c'' ''blob:2'']\<rparr>)
        \<lparr>active = ''a'', over = Some ''z''\<rparr> mounted
      = mounted
   \<and> ''a'' \<in> img_id ` set (images (homeProps\<lparr>images := [image ''a'' ''blob:0'']\<rparr>))
   \<and> ''z'' \<notin> img_id ` set (images (homeProps\<lparr>images := [image ''a'' ''blob:0'']\<rparr>))
   \<and> filter isChange
        (newEvents mounted
           (snd (handleDelete browser (homeProps\<lparr>images := [image ''a'' ''blob:0'']\<rparr>)
                   ''a'' mounted)))
      = [OnImagesChange []]
   \<and> filter isChange
        (newEvents mounted
           (snd (handleDelete browser (homeProps\<lparr>images := [image ''a'' ''blob:0'']\<rparr>)
                   ''z'' mounted)))
      = [OnImagesChange [image ''a'' ''blob:0'']]"
proof -
  let ?p = "homeProps\<lparr>images := [image ''a'' ''blob:0'']\<rparr>"
  let ?imgs = "[image ''a'' ''blob:0'', image ''b'' ''blob:1'', image ''c'' ''blob:2'']"
  let ?q = "homeProps\<lparr>images := ?imgs\<rparr>"
  let ?none = "\<lparr>active = ''a'', over = None\<rparr>"
  have en: "\<not> disabled homeProps"
    by (simp add: homeProps_def)
  have va: "filter (accepts homeProps) [png ''a.png'' 100] = [png ''a.png'' 100]"
    by (simp add: evals)
  have vr: "filter (accepts homeProps) [pdf ''a.pdf'' 100] = []"
    by (simp add: evals matchesPattern_def)
  have slots: "remainingSlots homeProps = Finite 10"
    by (simp add: evals)
  have kept: "keptFiles homeProps [png ''a.png'' 100] = [png ''a.png'' 100]"
    by (simp add: keptFiles_def slots)
  have added: "filter isChange
        (newEvents mounted (handleFileSelect browser homeProps [png ''a.png'' 100] mounted))
      = [OnImagesChange
           [\<lparr>img_id = ''id-0'', img_file = png ''a.png'' 100, preview = ''blob:0''\<rparr>]]"
  proof -
    from onImagesChange_calls[of homeProps "[png ''a.png'' 100]" mounted browser ?none "''a''"]
    have "\<not> disabled homeProps \<and> filter (accepts homeProps) [png ''a.png'' 100] \<noteq> []
        \<and> (remainingSlots homeProps = Infinity
           \<or> (\<exists>r. remainingSlots homeProps = Finite r \<and> 0 < r)) \<longrightarrow>
        filter isChange
          (newEvents mounted (handleFileSelect browser homeProps [png ''a.png'' 100] mounted))
        = [OnImagesChange
             (images homeProps
              @ freshImages browser mounted
                  (keptFiles homeProps (filter (accepts homeProps) [png ''a.png'' 100])))]"
      by blast
    with en slots have "filter isChange
          (newEvents mounted (handleFileSelect browser homeProps [png ''a.png'' 100] mounted))
        = [OnImagesChange
             (images homeProps @ freshImages browser mounted [png ''a.png'' 100])]"
      unfolding va kept by simp
    then show ?thesis
      by (simp add: freshImages_def browser_def mounted_def homeProps_def showNat.simps)
  qed
  have notadded: "filter isChange
        (newEvents mounted (handleFileSelect browser homeProps [pdf ''a.pdf'' 100] mounted))
      = []"
  proof -
    from onImagesChange_calls[of homeProps "[pdf ''a.pdf'' 100]" mounted browser ?none "''a''"]
    have "disabled homeProps \<or> filter (accepts homeProps) [pdf ''a.pdf'' 100] = []
        \<or> (\<exists>r. remainingSlots homeProps = Finite r \<and> r \<le> 0) \<longrightarrow>
        filter isChange
          (newEvents mounted (handleFileSelect browser homeProps [pdf ''a.pdf'' 100] mounted))
        = []"
      by blast
    with vr show ?thesis by blast
  qed
  have imgs: "images ?q = ?imgs"
    by (simp add: homeProps_def)
  have ids: "''a'' \<in> img_id ` set ?imgs" "''c'' \<in> img_id ` set ?imgs"
    "''z'' \<notin> img_id ` set ?imgs"
    by (simp_all add: image_def)
  have moved: "newEvents mounted (handleDragEnd ?q \<lparr>active = ''a'', over = Some ''c''\<rparr> mounted)
      = [OnImagesChange [image ''b'' ''blob:1'', image ''c'' ''blob:2'', image ''a'' ''blob:0'']]"
  proof -
    from onImagesChange_calls[of ?q "[]" mounted browser "\<lparr>active = ''a'', over = Some ''c''\<rparr>" "''a''"]
    have "(\<exists>target. over \<lparr>active = ''a'', over = Some ''c''\<rparr> = Some target
            \<and> active \<lparr>active = ''a'', over = Some ''c''\<rparr> \<noteq> target
            \<and> active \<lparr>active = ''a'', over = Some ''c''\<rparr> \<in> img_id ` set (images ?q)
            \<and> target \<in> img_id ` set (images ?q)) \<longrightarrow>
        (\<exists>moved. moved \<noteq> images ?q \<and> mset moved = mset (images ?q)
           \<and> newEvents mounted
                (handleDragEnd ?q \<lparr>active = ''a'', over = Some ''c''\<rparr> mounted)
              = [OnImagesChange moved])"
      by blast
    with ids obtain moved where
      ev: "newEvents mounted (handleDragEnd ?q \<lparr>active = ''a'', over = Some ''c''\<rparr> mounted)
            = [OnImagesChange moved]"
      unfolding imgs by auto
    then have "[OnImagesChange moved]
        = [OnImagesChange [image ''b'' ''blob:1'', image ''c'' ''blob:2'', image ''a'' ''blob:0'']]"
      by (simp add: newEvents_def handleDragEnd_def arrayMove_def callOnImagesChange_def emit_def
          homeProps_def image_def mounted_def Let_def)
    with ev show ?thesis by simp
  qed
  have ignored: "handleDragEnd ?q \<lparr>active = ''a'', over = Some ''z''\<rparr> mounted = mounted"
  proof -
    from onImagesChange_calls[of ?q "[]" mounted browser "\<lparr>active = ''a'', over = Some ''z''\<rparr>" "''a''"]
    have "\<not> (\<exists>target. over \<lparr>active = ''a'', over = Some ''z''\<rparr> = Some target
            \<and> active \<lparr>active = ''a'', over = Some ''z''\<rparr> \<noteq> target
            \<and> active \<lparr>active = ''a'', over = Some ''z''\<rparr> \<in> img_id ` set (images ?q)
            \<and> target \<in> img_id ` set (images ?q)) \<longrightarrow>
        handleDragEnd ?q \<lparr>active = ''a'', over = Some ''z''\<rparr> mounted = mounted"
      by blast
    with ids(3) show ?thesis
      unfolding imgs by auto
  qed
  have h1: "''a'' \<in> img_id ` set (images ?p)" and h2: "''z'' \<notin> img_id ` set (images ?p)"
    by (simp_all add: homeProps_def image_def)
  have f1: "filter (\<lambda>img. img_id img \<noteq> ''a'') (images ?p) = []"
    by (simp add: homeProps_def image_def)
  have imgp: "images ?p = [image ''a'' ''blob:0'']"
    by (simp add: homeProps_def)
  from onImagesChange_calls[of ?p "[]" mounted browser ?none "''a''"]
  have A: "filter isChange (newEvents mounted (snd (handleDelete browser ?p ''a'' mounted)))
      = [OnImagesChange []]"
    unfolding f1 by blast
  from onImagesChange_calls[of ?p "[]" mounted browser ?none "''z''"] h2
  have B: "filter isChange (newEvents mounted (snd (handleDelete browser ?p ''z'' mounted)))
      = [OnImagesChange [image ''a'' ''blob:0'']]"
    unfolding imgp by metis
  show ?thesis
    using en va slots added vr notadded moved ignored h1 h2 A B by blast
qed

theorem onImagesChange_calls_counterexample:
  "''z'' \<notin> img_id ` set (images (homeProps\<lparr>images := [image ''a'' ''blob:0'']\<rparr>))
   \<and> newEvents mounted
        (snd (handleDelete browser (homeProps\<lparr>images := [image ''a'' ''blob:0'']\<rparr>)
                ''z'' mounted))
      = [OnImagesChange (images (homeProps\<lparr>images := [image ''a'' ''blob:0'']\<rparr>))]"
  by (simp add: handleDelete_def callOnImagesChange_def emit_def newEvents_def homeProps_def
      image_def mounted_def)

subsection \<open>The size check and the value 0\<close>

text \<open>
  C10, as the code has it. \<^verbatim>\<open>validateFile\<close> reports \<^verbatim>\<open>FILE_TOO_LARGE\<close> only for a
  supplied, nonzero \<^verbatim>\<open>maxFileSize\<close> that the file exceeds; with \<^verbatim>\<open>maxFileSize\<close>
  undefined or 0 it skips the size check, and a file of any size is valid exactly when its
  type is accepted. \<^verbatim>\<open>handleFileSelect\<close> passes the prop after its default. With the
  prop 0 it never reports \<^verbatim>\<open>FILE_TOO_LARGE\<close>, every file of an accepted type is
  accepted whatever its size, and a batch of such files is added when the component is
  enabled and has room. With the prop omitted the bound is 10485760 bytes, not none: on an
  enabled component a larger file gets one \<^verbatim>\<open>FILE_TOO_LARGE\<close> error per occurrence in
  the batch (when an error callback is supplied), no \<^verbatim>\<open>URL.createObjectURL\<close> is
  called on it and no added image holds it, while a batch of files of an accepted type
  within the bound is added when there is room.
\<close>

theorem validateFile_size_check:
  "(\<forall>err. error (validateFile e f maxSize accepted) = Some err \<and> code err = FILE_TOO_LARGE \<longrightarrow>
       (\<exists>m. maxSize = Some m \<and> m \<noteq> 0 \<and> int (file_size f) > m))
   \<and> (maxSize = None \<or> maxSize = Some 0 \<longrightarrow>
       isValid (validateFile e f maxSize accepted) = isAcceptedType f accepted)
   \<and> (maxFileSize p = Some 0 \<longrightarrow>
       accepts p f = isAcceptedType f (Some (acceptedFileTypesOrDefault p)))
   \<and> (maxFileSize p = Some 0 \<and> \<not> disabled p \<and> files \<noteq> []
       \<and> list_all (\<lambda>f. isAcceptedType f (Some (acceptedFileTypesOrDefault p))) files
       \<and> (remainingSlots p = Infinity
          \<or> (\<exists>r. remainingSlots p = Finite r \<and> int (length files) \<le> r)) \<longrightarrow>
       newEvents s (handleFileSelect e p files s)
         = acquisitions e s files @ [OnImagesChange (images p @ freshImages e s files)])
   \<and> (maxFileSize p = None \<longrightarrow>
       accepts p f = (int (file_size f) \<le> 10485760
                      \<and> isAcceptedType f (Some (acceptedFileTypesOrDefault p))))
   \<and> (maxFileSize p = Some 0 \<longrightarrow>
       filter (hasCode FILE_TOO_LARGE) (newEvents s (handleFileSelect e p files s)) = [])
   \<and> (maxFileSize p = None \<and> \<not> disabled p \<and> int (file_size f) > 10485760 \<longrightarrow>
       filter (concerns f) (newEvents s (handleFileSelect e p files s))
         = (if onError p
            then replicate (count_list files f) (OnError (tooLargeError e f 10485760))
            else [])
       \<and> code (tooLargeError e f 10485760) = FILE_TOO_LARGE
       \<and> (\<forall>url. CreateObjectURL f url \<notin> set (newEvents s (handleFileSelect e p files s)))
       \<and> (\<exists>added. owner (images p) (newEvents s (handleFileSelect e p files s))
                     = images p @ added
                   \<and> f \<notin> set (map img_file added)))
   \<and> (maxFileSize p = None \<and> \<not> disabled p \<and> files \<noteq> []
       \<and> list_all (\<lambda>f. int (file_size f) \<le> 10485760
                        \<and> isAcceptedType f (Some (acceptedFileTypesOrDefault p))) files
       \<and> (remainingSlots p = Infinity
          \<or> (\<exists>r. remainingSlots p = Finite r \<and> int (length files) \<le> r)) \<longrightarrow>
       newEvents s (handleFileSelect e p files s)
         = acquisitions e s files @ [OnImagesChange (images p @ freshImages e s files)])"
proof (intro conjI impI allI)
  fix err
  assume "error (validateFile e f maxSize accepted) = Some err \<and> code err = FILE_TOO_LARGE"
  then show "\<exists>m. maxSize = Some m \<and> m \<noteq> 0 \<and> int (file_size f) > m"
    by (auto simp: validateFile_def exceededBound_def tooLargeError_def invalidTypeError_def
        split: option.splits if_splits)
next
  assume "maxSize = None \<or> maxSize = Some 0"
  then show "isValid (validateFile e f maxSize accepted) = isAcceptedType f accepted"
    by (auto simp: validateFile_def exceededBound_def)
next
  assume "maxFileSize p = Some 0"
  then show "accepts p f = isAcceptedType f (Some (acceptedFileTypesOrDefault p))"
    by (rule accepts_unlimited)
next
  assume a: "maxFileSize p = Some 0 \<and> \<not> disabled p \<and> files \<noteq> []
       \<and> list_all (\<lambda>f. isAcceptedType f (Some (acceptedFileTypesOrDefault p))) files
       \<and> (remainingSlots p = Infinity
          \<or> (\<exists>r. remainingSlots p = Finite r \<and> int (length files) \<le> r))"
  then have "accepts p = (\<lambda>f. isAcceptedType f (Some (acceptedFileTypesOrDefault p)))"
    by (intro ext accepts_unlimited) simp
  with a have acc: "list_all (accepts p) files"
    by simp
  from a have en: "\<not> disabled p" and ne: "files \<noteq> []"
    and room: "remainingSlots p = Infinity
          \<or> (\<exists>r. remainingSlots p = Finite r \<and> int (length files) \<le> r)"
    by simp_all
  show "newEvents s (handleFileSelect e p files s)
         = acquisitions e s files @ [OnImagesChange (images p @ freshImages e s files)]"
    by (rule newEvents_append) (rule handleFileSelect_all_accepted[OF en acc ne room])
next
  assume "maxFileSize p = None"
  then show "accepts p f = (int (file_size f) \<le> 10485760
                      \<and> isAcceptedType f (Some (acceptedFileTypesOrDefault p)))"
    by (rule accepts_default)
next
  assume "maxFileSize p = Some 0"
  then show "filter (hasCode FILE_TOO_LARGE) (newEvents s (handleFileSelect e p files s)) = []"
    by (rule hfs_unlimited_size)
next
  assume a: "maxFileSize p = None \<and> \<not> disabled p \<and> int (file_size f) > 10485760"
  then have dflt: "maxFileSizeOrDefault p = 10485760"
    by (simp add: maxFileSizeOrDefault_def DEFAULT_MAX_FILE_SIZE_def)
  from a have en: "\<not> disabled p" by simp
  have bound: "maxFileSizeOrDefault p \<noteq> 0" by (simp add: dflt)
  have big: "int (file_size f) > maxFileSizeOrDefault p" using a by (simp add: dflt)
  note over = hfs_oversized[OF en bound big, of s e files, unfolded dflt]
  show "filter (concerns f) (newEvents s (handleFileSelect e p files s))
         = (if onError p
            then replicate (count_list files f) (OnError (tooLargeError e f 10485760))
            else [])"
    using over by blast
  show "code (tooLargeError e f 10485760) = FILE_TOO_LARGE"
    by (simp add: tooLargeError_def)
  show "CreateObjectURL f url \<notin> set (newEvents s (handleFileSelect e p files s))" for url
    using over by blast
  show "\<exists>added. owner (images p) (newEvents s (handleFileSelect e p files s))
                     = images p @ added
                   \<and> f \<notin> set (map img_file added)"
    using over by blast
next
  assume a: "maxFileSize p = None \<and> \<not> disabled p \<and> files \<noteq> []
       \<and> list_all (\<lambda>f. int (file_size f) \<le> 10485760
                        \<and> isAcceptedType f (Some (acceptedFileTypesOrDefault p))) files
       \<and> (remainingSlots p = Infinity
          \<or> (\<exists>r. remainingSlots p = Finite r \<and> int (length files) \<le> r))"
  then have "accepts p = (\<lambda>f. int (file_size f) \<le> 10485760
                        \<and> isAcceptedType f (Some (acceptedFileTypesOrDefault p)))"
    by (intro ext accepts_default) simp
  with a have acc: "list_all (accepts p) files"
    by simp
  from a have en: "\<not> disabled p" and ne: "files \<noteq> []"
    and room: "remainingSlots p = Infinity
          \<or> (\<exists>r. remainingSlots p = Finite r \<and> int (length files) \<le> r)"
    by simp_all
  show "newEvents s (handleFileSelect e p files s)
         = acquisitions e s files @ [OnImagesChange (images p @ freshImages e s files)]"
    by (rule newEvents_append) (rule handleFileSelect_all_accepted[OF en acc ne room])
qed

theorem validateFile_size_check_witness:
  "maxFileSize (homeProps\<lparr>maxFileSize := Some 0\<rparr>) = Some 0
   \<and> isAcceptedType (png ''big.png'' 20000000)
        (Some (acceptedFileTypesOrDefault (homeProps\<lparr>maxFileSize := Some 0\<rparr>)))
   \<and> isValid (validateFile browser (png ''big.png'' 20000000) (Some 0) (Some ''image/*''))
   \<and> isValid (validateFile browser (png ''big.png'' 20000000) None (Some ''image/*''))
   \<and> newEvents mounted
        (handleFileSelect browser (homeProps\<lparr>maxFileSize := Some 0\<rparr>)
           [png ''big.png'' 20000000] mounted)
      = [CreateObjectURL (png ''big.png'' 20000000) ''blob:0'',
         OnImagesChange
           [\<lparr>img_id = ''id-0'', img_file = png ''big.png'' 20000000, preview = ''blob:0''\<rparr>]]
   \<and> maxFileSize homeProps = None \<and> \<not> disabled homeProps \<and> onError homeProps
   \<and> int (file_size (png ''big.png'' 20000000)) > 10485760
   \<and> filter (concerns (png ''big.png'' 20000000))
        (newEvents mounted
           (handleFileSelect browser homeProps
              [png ''a.png'' 100, png ''big.png'' 20000000] mounted))
      = [OnError (tooLargeError browser (png ''big.png'' 20000000) 10485760)]
   \<and> newEvents mounted (handleFileSelect browser homeProps [png ''a.png'' 100] mounted)
      = [CreateObjectURL (png ''a.png'' 100) ''blob:0'',
         OnImagesChange
           [\<lparr>img_id = ''id-0'', img_file = png ''a.png'' 100, preview = ''blob:0''\<rparr>]]"
proof -
  let ?p = "homeProps\<lparr>maxFileSize := Some 0\<rparr>"
  let ?big = "png ''big.png'' 20000000"
  let ?a = "png ''a.png'' 100"
  have h1: "maxFileSize ?p = Some 0" and h2: "\<not> disabled ?p"
    and g1: "maxFileSize homeProps = None" and g2: "\<not> disabled homeProps"
    and g3: "onError homeProps"
    by (simp_all add: homeProps_def)
  have ty: "isAcceptedType ?big (Some ''image/*'')" "isAcceptedType ?a (Some ''image/*'')"
    by (simp_all add: evals)
  have ad: "acceptedFileTypesOrDefault ?p = ''image/*''"
    "acceptedFileTypesOrDefault homeProps = ''image/*''"
    by (simp_all add: acceptedFileTypesOrDefault_def homeProps_def)
  have h3: "list_all (\<lambda>f. isAcceptedType f (Some (acceptedFileTypesOrDefault ?p))) [?big]"
    by (simp add: ad ty)
  have h4: "remainingSlots ?p = Finite 10" "remainingSlots homeProps = Finite 10"
    by (simp_all add: remainingSlots_def homeProps_def)
  have g4: "int (file_size ?big) > 10485760"
    by (simp add: png_def)
  have g5: "list_all (\<lambda>f. int (file_size f) \<le> 10485760
      \<and> isAcceptedType f (Some (acceptedFileTypesOrDefault homeProps))) [?a]"
    by (simp add: ad ty) (simp add: png_def)
  have cnt: "count_list [?a, ?big] ?big = 1"
    by (simp add: png_def)
  note inst = validateFile_size_check[of browser ?big _ "Some ''image/*''" ?p "[?big]" mounted]
  have v0: "isValid (validateFile browser ?big (Some 0) (Some ''image/*''))"
    using inst[of "Some 0"] ty by blast
  have vn: "isValid (validateFile browser ?big None (Some ''image/*''))"
    using inst[of None] ty by blast
  have ev: "newEvents mounted (handleFileSelect browser ?p [?big] mounted)
      = acquisitions browser mounted [?big]
        @ [OnImagesChange (images ?p @ freshImages browser mounted [?big])]"
    using inst[of None] h1 h2 h3 h4 by simp
  have rejected: "filter (concerns ?big)
        (newEvents mounted (handleFileSelect browser homeProps [?a, ?big] mounted))
      = [OnError (tooLargeError browser ?big 10485760)]"
    using validateFile_size_check[of browser ?big None "Some ''image/*''" homeProps
        "[?a, ?big]" mounted] g1 g2 g3 g4
    by (simp only: cnt) simp
  have ev2: "newEvents mounted (handleFileSelect browser homeProps [?a] mounted)
      = acquisitions browser mounted [?a]
        @ [OnImagesChange (images homeProps @ freshImages browser mounted [?a])]"
    using validateFile_size_check[of browser ?a None "Some ''image/*''" homeProps "[?a]" mounted]
      g1 g2 g5 h4
    by simp
  show ?thesis
    using h1 ty v0 vn g1 g2 g3 g4 rejected unfolding ev ev2 ad
    by (simp add: acquisitions_def freshImages_def browser_def mounted_def homeProps_def showNat.simps)
qed

theorem validateFile_size_check_counterexample:
  "maxFileSize homeProps = None
   \<and> isAcceptedType (png ''big.png'' 20000000) (Some (acceptedFileTypesOrDefault homeProps))
   \<and> newEvents mounted
        (handleFileSelect browser homeProps [png ''big.png'' 20000000] mounted)
      = [OnError (tooLargeError browser (png ''big.png'' 20000000) 10485760)]"
  by (simp add: handleFileSelect_def validateFile_def callOnError_def emit_def newEvents_def
      evals)

subsection \<open>Type matching\<close>

text \<open>
  C6. \<^verbatim>\<open>isAcceptedType\<close> with the pattern \<^verbatim>\<open>image/*\<close> accepts every file of type
  \<^verbatim>\<open>image/png\<close> and rejects every file of type \<^verbatim>\<open>application/pdf\<close>; with the
  pattern \<^verbatim>\<open>.png\<close> it accepts every file named \<^verbatim>\<open>photo.PNG\<close> and rejects every
  file named \<^verbatim>\<open>photo.jpg\<close>; \<^verbatim>\<open>*/*\<close> accepts every file. For any single pattern
  (no comma, nothing to trim), lower-cased: \<^verbatim>\<open>*/*\<close> accepts all; a pattern that ends
  in \<^verbatim>\<open>/*\<close> accepts the types that start with its part before the first slash and a
  slash; a pattern that starts with a dot accepts the names that, lower-cased, end with it;
  any other pattern accepts exactly the type equal to it.
\<close>

theorem isAcceptedType_patterns:
  "(file_type f = ''image/png'' \<longrightarrow> isAcceptedType f (Some ''image/*''))
   \<and> (file_type f = ''application/pdf'' \<longrightarrow> \<not> isAcceptedType f (Some ''image/*''))
   \<and> (file_name f = ''photo.PNG'' \<longrightarrow> isAcceptedType f (Some ''.png''))
   \<and> (file_name f = ''photo.jpg'' \<longrightarrow> \<not> isAcceptedType f (Some ''.png''))
   \<and> isAcceptedType f (Some ''*/*'')
   \<and> (pat \<noteq> [] \<and> CHR '','' \<notin> set pat \<and> trim pat = pat \<longrightarrow>
        isAcceptedType f (Some pat)
          = (if toLowerCase pat = ''*/*'' then True
             else if endsWith (toLowerCase pat) ''/*'' then
               startsWith (file_type f)
                 (takeWhile (\<lambda>c. c \<noteq> CHR ''/'') (toLowerCase pat) @ ''/'')
             else if startsWith (toLowerCase pat) ''.'' then
               endsWith (toLowerCase (file_name f)) (toLowerCase pat)
             else file_type f = toLowerCase pat))"
proof (intro conjI impI)
  show "isAcceptedType f (Some ''*/*'')"
    by (simp add: isAcceptedType_def matchesPattern_def trim_def isSpace_def toLowerCase_def
        toLowerChar_def)
next
  assume "file_type f = ''image/png''"
  then show "isAcceptedType f (Some ''image/*'')"
    by (simp add: isAcceptedType_def trim_def isSpace_def startsWith_def)
next
  assume "file_type f = ''application/pdf''"
  then show "\<not> isAcceptedType f (Some ''image/*'')"
    by (simp add: isAcceptedType_def trim_def isSpace_def startsWith_def)
next
  assume "file_name f = ''photo.PNG''"
  then show "isAcceptedType f (Some ''.png'')"
    by (simp add: isAcceptedType_def matchesPattern_def trim_def isSpace_def toLowerCase_def
        toLowerChar_def startsWith_def endsWith_def)
next
  assume "file_name f = ''photo.jpg''"
  then show "\<not> isAcceptedType f (Some ''.png'')"
    by (simp add: isAcceptedType_def matchesPattern_def trim_def isSpace_def toLowerCase_def
        toLowerChar_def startsWith_def endsWith_def)
next
  assume "pat \<noteq> [] \<and> CHR '','' \<notin> set pat \<and> trim pat = pat"
  then have "isAcceptedType f (Some pat) = matchesPattern f (toLowerCase pat)"
    by (intro isAcceptedType_single) simp_all
  then show "isAcceptedType f (Some pat)
          = (if toLowerCase pat = ''*/*'' then True
             else if endsWith (toLowerCase pat) ''/*'' then
               startsWith (file_type f)
                 (takeWhile (\<lambda>c. c \<noteq> CHR ''/'') (toLowerCase pat) @ ''/'')
             else if startsWith (toLowerCase pat) ''.'' then
               endsWith (toLowerCase (file_name f)) (toLowerCase pat)
             else file_type f = toLowerCase pat)"
    by (simp only: matchesPattern_def hd_split)
qed

theorem isAcceptedType_patterns_witness:
  "file_type (png ''photo.PNG'' 10) = ''image/png''
   \<and> file_name (png ''photo.PNG'' 10) = ''photo.PNG''
   \<and> file_type (pdf ''photo.jpg'' 10) = ''application/pdf''
   \<and> file_name (pdf ''photo.jpg'' 10) = ''photo.jpg''
   \<and> isAcceptedType (png ''photo.PNG'' 10) (Some ''image/*'')
   \<and> isAcceptedType (png ''photo.PNG'' 10) (Some ''.png'')
   \<and> \<not> isAcceptedType (pdf ''photo.jpg'' 10) (Some ''image/*'')
   \<and> \<not> isAcceptedType (pdf ''photo.jpg'' 10) (Some ''.png'')
   \<and> isAcceptedType (png ''photo.PNG'' 10) (Some ''image/png'')
   \<and> \<not> isAcceptedType (pdf ''photo.jpg'' 10) (Some ''image/png'')
   \<and> isAcceptedType (pdf ''photo.jpg'' 10) (Some ''Application/*'')
   \<and> isAcceptedType (pdf ''photo.jpg'' 10) (Some ''.JPG'')"
proof -
  let ?a = "png ''photo.PNG'' 10" and ?b = "pdf ''photo.jpg'' 10"
  have ta: "file_type ?a = ''image/png''" and na: "file_name ?a = ''photo.PNG''"
    and tb: "file_type ?b = ''application/pdf''" and nb: "file_name ?b = ''photo.jpg''"
    by (simp_all add: png_def pdf_def)
  have single: "''image/png'' \<noteq> [] \<and> CHR '','' \<notin> set ''image/png'' \<and> trim ''image/png'' = ''image/png''"
    "''Application/*'' \<noteq> [] \<and> CHR '','' \<notin> set ''Application/*''
       \<and> trim ''Application/*'' = ''Application/*''"
    "''.JPG'' \<noteq> [] \<and> CHR '','' \<notin> set ''.JPG'' \<and> trim ''.JPG'' = ''.JPG''"
    by (simp_all add: trim_def isSpace_def)
  have low: "toLowerCase ''image/png'' = ''image/png''"
    "toLowerCase ''Application/*'' = ''application/*''"
    "toLowerCase ''.JPG'' = ''.jpg''" "toLowerCase ''photo.jpg'' = ''photo.jpg''"
    by (simp_all add: toLowerCase_def toLowerChar_def)
  have c1: "isAcceptedType ?a (Some ''image/*'')" "isAcceptedType ?a (Some ''.png'')"
    using isAcceptedType_patterns[of ?a "''image/png''"] ta na by blast+
  have c2: "\<not> isAcceptedType ?b (Some ''image/*'')" "\<not> isAcceptedType ?b (Some ''.png'')"
    using isAcceptedType_patterns[of ?b "''image/png''"] tb nb by blast+
  have c3: "isAcceptedType ?a (Some ''image/png'')"
    using isAcceptedType_patterns[of ?a "''image/png''"] single(1)
    by (simp add: low ta endsWith_def startsWith_def)
  have c4: "\<not> isAcceptedType ?b (Some ''image/png'')"
    using isAcceptedType_patterns[of ?b "''image/png''"] single(1)
    by (simp add: low tb endsWith_def startsWith_def)
  have c5: "isAcceptedType ?b (Some ''Application/*'')"
    using isAcceptedType_patterns[of ?b "''Application/*''"] single(2)
    by (simp add: low tb endsWith_def startsWith_def)
  have c6: "isAcceptedType ?b (Some ''.JPG'')"
    using isAcceptedType_patterns[of ?b "''.JPG''"] single(3)
    by (simp add: low nb endsWith_def startsWith_def)
  show ?thesis
    using ta na tb nb c1 c2 c3 c4 c5 c6 by blast
qed

end
